theory Spec2Isabelle
  imports Main "HOL-Library.Word"
begin

section \<open>Errors\<close>

text \<open>
  Every way in which a call of \<^verbatim>\<open>Writer.cpp\<close> can stop early is a value of
  \<open>error\<close>. The first six constructors are C++ exceptions that the caller can catch;
  \<open>Died\<close> is the process abort of \<^verbatim>\<open>ValueOrDie()\<close> on a failed result; the last two are
  undefined behaviour of the C++ code (a null pointer dereferenced, \<^verbatim>\<open>operator[]\<close> past
  the end of a vector), which the model reports instead of continuing.
\<close>

datatype error =
    UserError string
  | RuntimeError string
  | BridgeError string
  | ParquetError string
  | IOError
  | OutOfRange
  | Died
  | NullDereference
  | OutOfBounds

fun raised :: "error \<Rightarrow> bool" where
  "raised (UserError m) = True"
| "raised (RuntimeError m) = True"
| "raised (BridgeError m) = True"
| "raised (ParquetError m) = True"
| "raised IOError = True"
| "raised OutOfRange = True"
| "raised Died = False"
| "raised NullDereference = False"
| "raised OutOfBounds = False"

type_synonym byte = "8 word"

section \<open>The destination and the buffering sink\<close>

text \<open>
  Modelled from the spec: the destination \<^verbatim>\<open>dwio::common::FileSink\<close> is an abstract
  collaborator that is not among the sources. Following section 6 of the specification it
  is a byte sink with \<^verbatim>\<open>write(bytes)\<close>, \<^verbatim>\<open>close()\<close> and \<^verbatim>\<open>isClosed()\<close>; the model records
  every buffer it received, in order, and a flag \<open>failing\<close> that makes its operations
  throw an I/O error without effect.
\<close>

record file_sink =
  written :: "byte list list"
  isClosed :: bool
  failing :: bool

definition sink_write :: "file_sink \<Rightarrow> byte list \<Rightarrow> error + file_sink" where
  "sink_write fs buf =
     (if failing fs then Inl IOError else Inr (fs\<lparr>written := written fs @ [buf]\<rparr>))"

definition sink_close :: "file_sink \<Rightarrow> error + file_sink" where
  "sink_close fs = (if failing fs then Inl IOError else Inr (fs\<lparr>isClosed := True\<rparr>))"

text \<open>
  \<^verbatim>\<open>class ArrowDataBufferSink\<close>; the members are written without their trailing
  underscore, which a record update does not accept. The field \<open>sink\<close> is the \<^verbatim>\<open>unique_ptr\<close> to the destination
  (\<open>None\<close> once it was reset), \<open>buffer\<close> the contents of the \<^verbatim>\<open>DataBuffer<char>\<close> and
  \<open>capacity\<close> its capacity, \<open>bytesFlushed\<close> the \<^verbatim>\<open>int64_t\<close> counter. The product
  \<^verbatim>\<open>growRatio_ * requestCapacity\<close> is floating point; the model takes the function
  \<open>growRatio\<close> from the requested capacity to the reserved one as given.
\<close>

record arrow_data_buffer_sink =
  sink :: "file_sink option"
  growRatio :: "nat \<Rightarrow> nat"
  buffer :: "byte list"
  capacity :: nat
  bytesFlushed :: "64 word"

definition ArrowDataBufferSink :: "file_sink \<Rightarrow> (nat \<Rightarrow> nat) \<Rightarrow> arrow_data_buffer_sink" where
  "ArrowDataBufferSink fs ratio =
     \<lparr>sink = Some fs, growRatio = ratio, buffer = [], capacity = 0, bytesFlushed = 0\<rparr>"

text \<open>
  Modelled from the spec: \<^verbatim>\<open>DataBuffer::reserve\<close> and \<^verbatim>\<open>DataBuffer::append\<close> are not among
  the sources. \<open>reserve\<close> only ever enlarges the capacity, and \<open>append\<close> at the end of
  the buffer copies the bytes behind the present contents, enlarging the capacity to the
  new size where needed.
\<close>

definition reserve :: "nat \<Rightarrow> arrow_data_buffer_sink \<Rightarrow> arrow_data_buffer_sink" where
  "reserve n s = s\<lparr>capacity := max (capacity s) n\<rparr>"

definition append :: "byte list \<Rightarrow> arrow_data_buffer_sink \<Rightarrow> arrow_data_buffer_sink" where
  "append data s =
     (reserve (length (buffer s) + length data) s)\<lparr>buffer := buffer s @ data\<rparr>"

text \<open>
  \<^verbatim>\<open>Write(const void* data, int64_t nbytes)\<close>, with \<open>nbytes = length data\<close>; the overload
  that takes a \<^verbatim>\<open>Buffer\<close> does the same with the buffer's bytes.
\<close>

definition Write :: "arrow_data_buffer_sink \<Rightarrow> byte list \<Rightarrow> arrow_data_buffer_sink" where
  "Write s data =
     (let requestCapacity = length (buffer s) + length data;
          s1 = (if requestCapacity > capacity s
                then reserve (growRatio s requestCapacity) s else s)
      in append data s1)"

text \<open>
  \<^verbatim>\<open>Flush()\<close>: the counter is advanced first, then the buffer is moved into the call of
  \<^verbatim>\<open>sink_->write\<close>. The moved-from buffer is empty whether or not the destination throws.
\<close>

definition Flush :: "arrow_data_buffer_sink \<Rightarrow> error option \<times> arrow_data_buffer_sink" where
  "Flush s =
     (let s1 = s\<lparr>bytesFlushed := bytesFlushed s + of_nat (length (buffer s))\<rparr>
      in case sink s1 of
           None \<Rightarrow> (Some NullDereference, s1)
         | Some fs \<Rightarrow>
             (case sink_write fs (buffer s1) of
                Inl e \<Rightarrow> (Some e, s1\<lparr>buffer := [], capacity := 0\<rparr>)
              | Inr fs' \<Rightarrow> (None, s1\<lparr>sink := Some fs', buffer := [], capacity := 0\<rparr>)))"

text \<open>\<^verbatim>\<open>Tell() const\<close>: a pure function of the state.\<close>

definition Tell :: "arrow_data_buffer_sink \<Rightarrow> 64 word" where
  "Tell s = bytesFlushed s + of_nat (length (buffer s))"

definition Close :: "arrow_data_buffer_sink \<Rightarrow> error option \<times> arrow_data_buffer_sink" where
  "Close s =
     (case Flush s of
        (Some e, s1) \<Rightarrow> (Some e, s1)
      | (None, s1) \<Rightarrow>
          (case sink s1 of
             None \<Rightarrow> (Some NullDereference, s1)
           | Some fs \<Rightarrow>
               (case sink_close fs of
                  Inl e \<Rightarrow> (Some e, s1)
                | Inr fs' \<Rightarrow> (None, s1\<lparr>sink := Some fs'\<rparr>))))"

definition closed :: "arrow_data_buffer_sink \<Rightarrow> error + bool" where
  "closed s = (case sink s of None \<Rightarrow> Inl NullDereference | Some fs \<Rightarrow> Inr (isClosed fs))"

text \<open>\<^verbatim>\<open>ArrowDataBufferSink::abort()\<close>: \<^verbatim>\<open>sink_.reset(); buffer.clear();\<close>\<close>

definition abort_sink :: "arrow_data_buffer_sink \<Rightarrow> arrow_data_buffer_sink" where
  "abort_sink s = s\<lparr>sink := None, buffer := []\<rparr>"

text \<open>A sequence of calls on the sink, stopping at the first one that fails.\<close>

datatype sink_op = OpWrite "byte list" | OpFlush

fun sink_step :: "sink_op \<Rightarrow> arrow_data_buffer_sink \<Rightarrow> error option \<times> arrow_data_buffer_sink" where
  "sink_step (OpWrite data) s = (None, Write s data)"
| "sink_step OpFlush s = Flush s"

fun sink_run :: "sink_op list \<Rightarrow> arrow_data_buffer_sink \<Rightarrow> error option \<times> arrow_data_buffer_sink" where
  "sink_run [] s = (None, s)"
| "sink_run (op # ops) s =
     (case sink_step op s of
        (Some e, s') \<Rightarrow> (Some e, s')
      | (None, s') \<Rightarrow> sink_run ops s')"

text \<open>
  The sizes that the buffer had at each \<^verbatim>\<open>Flush()\<close> of such a sequence: the amounts that
  the flushes added to the counter.
\<close>

fun flush_sizes :: "sink_op list \<Rightarrow> arrow_data_buffer_sink \<Rightarrow> nat list" where
  "flush_sizes [] s = []"
| "flush_sizes (OpWrite d # ops) s = flush_sizes ops (Write s d)"
| "flush_sizes (OpFlush # ops) s =
     length (buffer s) #
       (case Flush s of (None, s') \<Rightarrow> flush_sizes ops s' | (Some e, s') \<Rightarrow> [])"

section \<open>Logical types and schema validation\<close>

text \<open>
  The logical types of the engine, as far as \<^verbatim>\<open>Writer.cpp\<close> looks at them: \<^verbatim>\<open>isRow()\<close>,
  \<^verbatim>\<open>isArray()\<close>, \<^verbatim>\<open>isMap()\<close>, and everything else. A \<^verbatim>\<open>RowType\<close> is its list of named
  children, in order (\<^verbatim>\<open>nameOf(i)\<close>, \<^verbatim>\<open>childAt(i)\<close>).
\<close>

datatype type_kind =
    BOOLEAN | TINYINT | SMALLINT | INTEGER | BIGINT | HUGEINT | REAL | DOUBLE
  | VARCHAR | VARBINARY | TIMESTAMP | UNKNOWN | FUNCTION | OPAQUE

datatype vtype =
    SCALAR type_kind
  | ARRAY vtype
  | MAP vtype vtype
  | ROW "(string \<times> vtype) list"

type_synonym row_type = "(string \<times> vtype) list"

text \<open>
  The first loop of \<^verbatim>\<open>validateSchemaRecursive\<close>: the names in order, each checked for
  emptiness and then inserted into \<open>uniqueNames\<close>.
\<close>

fun checkFieldNames :: "string list \<Rightarrow> string set \<Rightarrow> error option" where
  "checkFieldNames [] uniqueNames = None"
| "checkFieldNames (name # rest) uniqueNames =
     (if name = [] then Some (UserError ''Field name must not be empty.'')
      else if name \<in> uniqueNames
      then Some (UserError (''File schema should not have duplicate columns: '' @ name))
      else checkFieldNames rest (insert name uniqueNames))"

text \<open>
  \<^verbatim>\<open>validateSchemaRecursive\<close> on a non-null schema, and its second loop
  \<open>validateChildren\<close>: only a child that is itself a \<^verbatim>\<open>RowType\<close>
  (\<^verbatim>\<open>dynamic_pointer_cast<const RowType>\<close>) is visited.
\<close>

fun validateSchemaRecursive :: "row_type \<Rightarrow> error option"
  and validateChildren :: "row_type \<Rightarrow> error option" where
  "validateSchemaRecursive fs =
     (case checkFieldNames (map fst fs) {} of
        Some e \<Rightarrow> Some e
      | None \<Rightarrow> validateChildren fs)"
| "validateChildren [] = None"
| "validateChildren ((n, ROW cs) # rest) =
     (case validateSchemaRecursive cs of
        Some e \<Rightarrow> Some e
      | None \<Rightarrow> validateChildren rest)"
| "validateChildren ((n, t) # rest) = validateChildren rest"

text \<open>The entry point, with the check of the pointer itself.\<close>

definition validateSchema :: "row_type option \<Rightarrow> error option" where
  "validateSchema schema =
     (case schema of
        None \<Rightarrow> Some (UserError ''Field schema must not be empty.'')
      | Some fs \<Rightarrow> validateSchemaRecursive fs)"

text \<open>
  What the claim about validation asks for, in its own words: some struct level of the
  schema, the top level and every nested struct wherever it sits, has an empty field name
  or two fields of the same name.
\<close>

fun struct_levels :: "vtype \<Rightarrow> row_type list" where
  "struct_levels (SCALAR k) = []"
| "struct_levels (ARRAY t) = struct_levels t"
| "struct_levels (MAP k v) = struct_levels k @ struct_levels v"
| "struct_levels (ROW fs) = fs # concat (map (\<lambda>f. struct_levels (snd f)) fs)"

definition bad_level :: "row_type \<Rightarrow> bool" where
  "bad_level fs = ([] \<in> set (map fst fs) \<or> \<not> distinct (map fst fs))"

definition spec_invalid :: "row_type \<Rightarrow> bool" where
  "spec_invalid fs = list_ex bad_level (struct_levels (ROW fs))"

section \<open>Converted schemas and their reconciliation\<close>

text \<open>
  The types and fields of the interchange format, as far as reconciliation looks at them.
  \<open>AList\<close>, \<open>ALargeList\<close> and \<open>AFixedSizeList\<close> are the \<^verbatim>\<open>BaseListType\<close>s; a map type
  holds its key field, its item field and \<^verbatim>\<open>keys_sorted\<close>, and is a list type too.
\<close>

datatype arrow_type =
    APrimitive string
  | AStruct "arrow_field list"
  | AList arrow_field
  | ALargeList arrow_field
  | AFixedSizeList arrow_field nat
  | AMap arrow_field arrow_field bool
and arrow_field =
    Field (field_name: string) (field_type: arrow_type) (field_nullable: bool)

definition WithName :: "arrow_field \<Rightarrow> string \<Rightarrow> arrow_field" where
  "WithName f n = Field n (field_type f) (field_nullable f)"

definition WithType :: "arrow_field \<Rightarrow> arrow_type \<Rightarrow> arrow_field" where
  "WithType f t = Field (field_name f) t (field_nullable f)"

definition struct_type :: "arrow_field list \<Rightarrow> arrow_type" where
  "struct_type fs = AStruct fs"

definition list_type :: "arrow_field \<Rightarrow> arrow_type" where
  "list_type f = AList f"

text \<open>
  \<^verbatim>\<open>::arrow::map(key_type, item_type)\<close> takes two types, not fields: the library builds
  the key field and the item field itself, under its fixed names, the key not nullable.
\<close>

definition map_type :: "arrow_type \<Rightarrow> arrow_type \<Rightarrow> arrow_type" where
  "map_type key_type item_type =
     AMap (Field ''key'' key_type False) (Field ''value'' item_type True) False"

text \<open>The three \<^verbatim>\<open>dynamic_pointer_cast\<close>s; \<open>None\<close> is the null pointer.\<close>

fun asStructType :: "arrow_type \<Rightarrow> arrow_field list option" where
  "asStructType (AStruct fs) = Some fs"
| "asStructType t = None"

fun value_field :: "arrow_type \<Rightarrow> arrow_field option" where
  "value_field (AList f) = Some f"
| "value_field (ALargeList f) = Some f"
| "value_field (AFixedSizeList f n) = Some f"
| "value_field (AMap k v s) = Some (Field ''entries'' (AStruct [k, v]) False)"
| "value_field t = None"

fun asMapType :: "arrow_type \<Rightarrow> (arrow_field \<times> arrow_field) option" where
  "asMapType (AMap k v s) = Some (k, v)"
| "asMapType t = None"

text \<open>
  \<^verbatim>\<open>updateFieldNameRecursive(field, type, name = "")\<close>. \<open>updateChildren\<close> is the loop of
  the struct case over the positions of the logical row type; it reads
  \<^verbatim>\<open>structType->fields()[i]\<close>, which is a null dereference when the cast failed and a read
  past the end when the converted struct has too few fields. The same loop runs in
  \<^verbatim>\<open>Writer::write\<close> over the top level.
\<close>

fun updateFieldNameRecursive :: "arrow_field \<Rightarrow> vtype \<Rightarrow> string \<Rightarrow> error + arrow_field"
  and updateChildren :: "arrow_field list option \<Rightarrow> row_type \<Rightarrow> error + arrow_field list" where
  "updateFieldNameRecursive field (ROW rowType) name =
     (let newField = WithName field name
      in case updateChildren (asStructType (field_type newField)) rowType of
           Inl e \<Rightarrow> Inl e
         | Inr newFields \<Rightarrow> Inr (WithType newField (struct_type newFields)))"
| "updateFieldNameRecursive field (ARRAY elementType) name =
     (let newField = WithName field name
      in case value_field (field_type newField) of
           None \<Rightarrow> Inl NullDereference
         | Some elementField \<Rightarrow>
             (case updateFieldNameRecursive elementField elementType [] of
                Inl e \<Rightarrow> Inl e
              | Inr newElement \<Rightarrow> Inr (WithType newField (list_type newElement))))"
| "updateFieldNameRecursive field (MAP keyType valueType) name =
     (let newField = WithName field name
      in case asMapType (field_type newField) of
           None \<Rightarrow> Inl NullDereference
         | Some (keyField, itemField) \<Rightarrow>
             (case updateFieldNameRecursive keyField keyType [] of
                Inl e \<Rightarrow> Inl e
              | Inr newKeyField \<Rightarrow>
                  (case updateFieldNameRecursive itemField valueType [] of
                     Inl e \<Rightarrow> Inl e
                   | Inr newValueField \<Rightarrow>
                       Inr (WithType newField
                              (map_type (field_type newKeyField) (field_type newValueField))))))"
| "updateFieldNameRecursive field (SCALAR k) name =
     (if name \<noteq> [] then Inr (WithName field name) else Inr field)"
| "updateChildren structFields [] = Inr []"
| "updateChildren None (c # cs) = Inl NullDereference"
| "updateChildren (Some []) (c # cs) = Inl OutOfBounds"
| "updateChildren (Some (f # fs)) ((n, t) # cs) =
     (case updateFieldNameRecursive f t n of
        Inl e \<Rightarrow> Inl e
      | Inr f' \<Rightarrow>
          (case updateChildren (Some fs) cs of
             Inl e \<Rightarrow> Inl e
           | Inr fs' \<Rightarrow> Inr (f' # fs')))"

section \<open>Input batches and the conversion bridge\<close>

text \<open>
  Modelled from the spec: \<^verbatim>\<open>Type::equivalent\<close> is not among the sources. The
  specification asks that the batch's logical type equal the writer's schema exactly:
  field order, names and nested types.
\<close>

definition equivalent :: "vtype \<Rightarrow> vtype \<Rightarrow> bool" where
  "equivalent a b = (a = b)"

datatype vector_encoding =
    Simple_BIASED | Simple_CONSTANT | Simple_DICTIONARY | Simple_FLAT | Simple_SEQUENCE
  | Simple_ROW | Simple_MAP | Simple_FLAT_MAP | Simple_ARRAY | Simple_LAZY | Simple_FUNCTION

text \<open>
  What \<^verbatim>\<open>needFlatten\<close> reads of a child of a row vector: \<^verbatim>\<open>encoding()\<close>, whether
  \<^verbatim>\<open>valueVector()\<close> is non-null, \<^verbatim>\<open>wrappedVector()->isFlatEncoding()\<close> and \<^verbatim>\<open>isScalar()\<close>.
\<close>

record child_vector =
  vectorEncoding :: vector_encoding
  valueVector :: bool
  wrappedIsFlatEncoding :: bool
  isScalar :: bool

text \<open>
  What \<^verbatim>\<open>Writer::write\<close> reads of its argument: \<^verbatim>\<open>type()\<close>, the result of
  \<^verbatim>\<open>dynamic_pointer_cast<RowVector>\<close> (the children, or \<open>None\<close> for the null pointer),
  \<^verbatim>\<open>size()\<close> (a signed 32-bit \<^verbatim>\<open>vector_size_t\<close>) and \<^verbatim>\<open>estimateFlatSize()\<close>
  (a \<^verbatim>\<open>uint64_t\<close>). \<open>payload\<close> stands for the data.
\<close>

record vector =
  vectorType :: vtype
  rowVector :: "child_vector list option"
  vectorSize :: int
  estimateFlatSize :: "64 word"
  payload :: "nat list"

definition needFlatten :: "vector \<Rightarrow> error + bool" where
  "needFlatten data =
     (case rowVector data of
        None \<Rightarrow> Inl (RuntimeError ''Arrow export expects a RowVector as input data.'')
      | Some children \<Rightarrow>
          Inr (list_ex
                 (\<lambda>child.
                    let isNestedWrapped =
                          ((vectorEncoding child = Simple_DICTIONARY
                            \<or> vectorEncoding child = Simple_CONSTANT)
                           \<and> valueVector child \<and> \<not> wrappedIsFlatEncoding child);
                        isComplex = (\<not> isScalar child)
                    in isNestedWrapped \<or> isComplex)
                 children))"

text \<open>
  The bridging primitives \<^verbatim>\<open>BaseVector::flattenVector\<close> and the two \<^verbatim>\<open>exportToArrow\<close>
  are outside the sources and are taken as given: each either throws or returns its
  result. An exported array is the list of its children's data; an exported schema is
  the field that describes the whole batch.
\<close>

record bridge =
  flattenVector :: "vector \<Rightarrow> string + vector"
  exportArray :: "vector \<Rightarrow> string + nat list"
  exportSchema :: "vector \<Rightarrow> string + arrow_field"

record arrow_array =
  array_type :: arrow_type
  array_data :: nat

record record_batch =
  rb_schema :: "arrow_field list"
  rb_columns :: "arrow_array list"

text \<open>
  \<^verbatim>\<open>::arrow::ImportSchema\<close> accepts the description of a struct only, and
  \<^verbatim>\<open>::arrow::ImportRecordBatch\<close> an array with one child per field of the schema; the
  batch it returns has that schema and one column per field, typed by the field.
\<close>

definition ImportSchema :: "arrow_field \<Rightarrow> arrow_field list option" where
  "ImportSchema f = asStructType (field_type f)"

definition ImportRecordBatch :: "nat list \<Rightarrow> arrow_field list \<Rightarrow> error + record_batch" where
  "ImportRecordBatch array newFields =
     (if length array = length newFields
      then Inr \<lparr>rb_schema = newFields,
               rb_columns =
                 map (\<lambda>(d, f). \<lparr>array_type = field_type f, array_data = d\<rparr>) (zip array newFields)\<rparr>
      else Inl (ParquetError ''ImportRecordBatch''))"

section \<open>The encoder and its configuration\<close>

record chunked_array =
  chunks :: "arrow_array list"
  chunked_type :: arrow_type

text \<open>\<^verbatim>\<open>::arrow::ChunkedArray::Make\<close> fails unless every chunk has the given type.\<close>

definition ChunkedArray_Make :: "arrow_array list \<Rightarrow> arrow_type \<Rightarrow> chunked_array option" where
  "ChunkedArray_Make cs t =
     (if list_all (\<lambda>a. array_type a = t) cs
      then Some \<lparr>chunks = cs, chunked_type = t\<rparr> else None)"

record table =
  table_schema :: "arrow_field list"
  table_columns :: "chunked_array list"
  table_num_rows :: "64 word"

definition Table_Make :: "arrow_field list \<Rightarrow> chunked_array list \<Rightarrow> 64 word \<Rightarrow> table" where
  "Table_Make sch columns num_rows =
     \<lparr>table_schema = sch, table_columns = columns, table_num_rows = num_rows\<rparr>"

datatype compression_kind =
    CompressionKind_NONE | CompressionKind_ZLIB | CompressionKind_SNAPPY | CompressionKind_LZO
  | CompressionKind_ZSTD | CompressionKind_LZ4 | CompressionKind_GZIP | CompressionKind_MAX

datatype compression =
    UNCOMPRESSED | SNAPPY | GZIP | BROTLI | ZSTD | LZ4 | LZ4_FRAME | LZO | BZ2 | LZ4_HADOOP

fun getArrowParquetCompression :: "compression_kind \<Rightarrow> error + compression" where
  "getArrowParquetCompression CompressionKind_SNAPPY = Inr SNAPPY"
| "getArrowParquetCompression CompressionKind_GZIP = Inr GZIP"
| "getArrowParquetCompression CompressionKind_ZSTD = Inr ZSTD"
| "getArrowParquetCompression CompressionKind_NONE = Inr UNCOMPRESSED"
| "getArrowParquetCompression CompressionKind_LZ4 = Inr LZ4_HADOOP"
| "getArrowParquetCompression k = Inl (RuntimeError ''Unsupported compression'')"

text \<open>
  The flush policy: \<^verbatim>\<open>shouldFlush\<close> on the staged row count and byte estimate, and
  \<^verbatim>\<open>rowsInRowGroup()\<close>.
\<close>

record flush_policy =
  shouldFlush :: "64 word \<Rightarrow> 64 word \<Rightarrow> bool"
  rowsInRowGroup :: "64 word"

text \<open>
  Modelled from the spec: \<^verbatim>\<open>DefaultFlushPolicy\<close> is declared outside the sources. It
  flushes once the staged row count or the staged byte estimate (a signed 64-bit number)
  has reached its target.
\<close>

definition DefaultFlushPolicy :: "64 word \<Rightarrow> 64 word \<Rightarrow> flush_policy" where
  "DefaultFlushPolicy rowsTarget bytesTarget =
     \<lparr>shouldFlush = (\<lambda>stripeRowCount stripeSizeEstimate.
         rowsTarget \<le> stripeRowCount \<or> sint bytesTarget \<le> sint stripeSizeEstimate),
      rowsInRowGroup = rowsTarget\<rparr>"

text \<open>
  The options that the constructor and \<^verbatim>\<open>getArrowParquetWriterOptions\<close> read.
  \<open>flushPolicyFactory\<close> holds the policy that the factory would return. The properties
  of the encoder are the calls made on its builder, in order.
\<close>

record writer_options =
  enableDictionary :: "bool option"
  dictionaryPageSizeLimit :: "int option"
  compressionKind :: "compression_kind option"
  columnCompressionsMap :: "(string \<times> compression_kind) list"
  encoding :: nat
  dataPageSize :: "int option"
  batchSize :: "int option"
  codecOptions :: nat
  useParquetDataPageV2 :: "bool option"
  createdBy :: "string option"
  flushPolicyFactory :: "flush_policy option"
  writeInt96AsTimestamp :: bool
  bufferGrowRatio :: "nat \<Rightarrow> nat"

text \<open>The constants that the sources use and do not define.\<close>

record defaults =
  DEFAULT_IS_DICTIONARY_ENABLED :: bool
  DEFAULT_DICTIONARY_PAGE_SIZE_LIMIT :: int
  kDefaultDataPageSize :: int
  DEFAULT_WRITE_BATCH_SIZE :: int
  defaultFlushPolicy :: flush_policy

datatype property =
    enable_dictionary
  | dictionary_pagesize_limit int
  | disable_dictionary
  | compression compression
  | column_compression string compression
  | encoding_property nat
  | data_pagesize int
  | write_batch_size int
  | max_row_group_length "64 word"
  | codec_options nat
  | enable_store_decimal_as_integer
  | data_page_version_V1
  | data_page_version_V2
  | created_by string

fun columnCompressions :: "(string \<times> compression_kind) list \<Rightarrow> error + property list" where
  "columnCompressions [] = Inr []"
| "columnCompressions ((column, kind) # rest) =
     (case getArrowParquetCompression kind of
        Inl e \<Rightarrow> Inl e
      | Inr c \<Rightarrow>
          (case columnCompressions rest of
             Inl e \<Rightarrow> Inl e
           | Inr ps \<Rightarrow> Inr (column_compression column c # ps)))"

definition getArrowParquetWriterOptions ::
  "defaults \<Rightarrow> writer_options \<Rightarrow> flush_policy \<Rightarrow> error + property list" where
  "getArrowParquetWriterOptions D options policy =
     (let dictionary =
            (if case_option (DEFAULT_IS_DICTIONARY_ENABLED D) id (enableDictionary options)
             then [enable_dictionary,
                   dictionary_pagesize_limit
                     (case_option (DEFAULT_DICTIONARY_PAGE_SIZE_LIMIT D) id
                        (dictionaryPageSizeLimit options))]
             else [disable_dictionary])
      in case getArrowParquetCompression
                (case_option CompressionKind_NONE id (compressionKind options)) of
           Inl e \<Rightarrow> Inl e
         | Inr c \<Rightarrow>
             (case columnCompressions (columnCompressionsMap options) of
                Inl e \<Rightarrow> Inl e
              | Inr columns \<Rightarrow>
                  Inr (dictionary @ [compression c] @ columns @
                       [encoding_property (encoding options),
                        data_pagesize (case_option (kDefaultDataPageSize D) id (dataPageSize options)),
                        write_batch_size
                          (case_option (DEFAULT_WRITE_BATCH_SIZE D) id (batchSize options)),
                        max_row_group_length (rowsInRowGroup policy),
                        codec_options (codecOptions options),
                        enable_store_decimal_as_integer,
                        (if case_option False id (useParquetDataPageV2 options)
                         then data_page_version_V2 else data_page_version_V1)] @
                       (case createdBy options of None \<Rightarrow> [] | Some c \<Rightarrow> [created_by c]))))"

text \<open>
  The handle of the encoder: the schema and properties it was opened with and the tables
  it was given, each with the row-group length requested. The encoder library is taken as
  given: each of its calls either fails or returns the bytes that it writes to the stream.
\<close>

record file_writer =
  fw_schema :: "arrow_field list"
  fw_properties :: "property list"
  fw_int96 :: bool
  fw_tables :: "(table \<times> 64 word) list"

record encoder_lib =
  FileWriter_Open :: "arrow_field list \<Rightarrow> property list \<Rightarrow> bool \<Rightarrow> string + byte list"
  WriteTable :: "file_writer \<Rightarrow> table \<Rightarrow> 64 word \<Rightarrow> string + byte list"
  FileWriter_Close :: "file_writer \<Rightarrow> string + byte list"

section \<open>The writer\<close>

text \<open>
  What \<^verbatim>\<open>setMemoryReclaimers\<close> reads of the root pool: \<^verbatim>\<open>isLeaf()\<close>, whether
  \<^verbatim>\<open>reclaimer()\<close> is set, and whether the parent exists and has a reclaimer.
\<close>

record memory_pool =
  isLeaf :: bool
  reclaimer :: bool
  parentReclaimer :: "bool option"

definition setMemoryReclaimers :: "memory_pool \<Rightarrow> error + memory_pool" where
  "setMemoryReclaimers p =
     (if isLeaf p
      then Inl (RuntimeError ''The root memory pool for parquet writer can't be leaf'')
      else if reclaimer p then Inl (RuntimeError ''VELOX_CHECK_NULL(pool_->reclaimer())'')
      else if parentReclaimer p = None \<or> parentReclaimer p = Some False then Inr p
      else Inr (p\<lparr>reclaimer := True\<rparr>))"

text \<open>\<^verbatim>\<open>struct ArrowContext\<close>; \<open>writer\<close> and \<open>schema\<close> are pointers, \<open>None\<close> when null.\<close>

record arrow_context =
  writer :: "file_writer option"
  schema :: "arrow_field list option"
  properties :: "property list"
  stagingRows :: "64 word"
  stagingBytes :: "64 word"
  stagingChunks :: "arrow_array list list"

text \<open>
  The members of \<^verbatim>\<open>class Writer\<close> that the sources use: \<open>pool\<close>, \<open>stream\<close>,
  \<open>arrowContext\<close> (\<open>None\<close> once reset), \<open>flushPolicy\<close> are \<^verbatim>\<open>pool_\<close>, \<^verbatim>\<open>stream_\<close>,
  \<^verbatim>\<open>arrowContext_\<close>, \<^verbatim>\<open>flushPolicy_\<close>; \<open>writerSchema\<close> is \<^verbatim>\<open>schema_\<close> and \<open>writeInt96\<close> is
  \<^verbatim>\<open>writeInt96AsTimestamp_\<close>.
\<close>

record writer =
  pool :: memory_pool
  stream :: arrow_data_buffer_sink
  arrowContext :: "arrow_context option"
  writerSchema :: row_type
  flushPolicy :: flush_policy
  writeInt96 :: bool

text \<open>
  The constructor \<^verbatim>\<open>Writer::Writer(sink, options, pool, schema)\<close>: it either throws or
  yields the writer.
\<close>

definition Writer ::
  "defaults \<Rightarrow> file_sink \<Rightarrow> writer_options \<Rightarrow> memory_pool \<Rightarrow> row_type option \<Rightarrow> error + writer" where
  "Writer D fs options p sch =
     (case sch of
        None \<Rightarrow> Inl (UserError ''Field schema must not be empty.'')
      | Some rowType \<Rightarrow>
          (case validateSchemaRecursive rowType of
             Some e \<Rightarrow> Inl e
           | None \<Rightarrow>
               (let policy = (case flushPolicyFactory options of
                                Some made \<Rightarrow> made
                              | None \<Rightarrow> defaultFlushPolicy D)
                in case getArrowParquetWriterOptions D options policy of
                     Inl e \<Rightarrow> Inl e
                   | Inr props \<Rightarrow>
                       (case setMemoryReclaimers p of
                          Inl e \<Rightarrow> Inl e
                        | Inr p' \<Rightarrow>
                            Inr \<lparr>pool = p',
                                 stream = ArrowDataBufferSink fs (bufferGrowRatio options),
                                 arrowContext =
                                   Some \<lparr>writer = None, schema = None, properties = props,
                                         stagingRows = 0, stagingBytes = 0,
                                         stagingChunks = []\<rparr>,
                                 writerSchema = rowType,
                                 flushPolicy = policy,
                                 writeInt96 = writeInt96AsTimestamp options\<rparr>))))"

text \<open>
  The first loop of \<^verbatim>\<open>Writer::flush\<close>: for every field of the canonical schema the staged
  sequence of that column is read with \<^verbatim>\<open>at(colIdx)\<close>, moved out (which leaves it empty)
  and made into a chunked array of the field's type, with \<^verbatim>\<open>ValueOrDie()\<close>.
\<close>

fun collectChunks ::
  "arrow_field list \<Rightarrow> nat \<Rightarrow> arrow_array list list
     \<Rightarrow> error option \<times> arrow_array list list \<times> chunked_array list" where
  "collectChunks [] colIdx staging = (None, staging, [])"
| "collectChunks (f # rest) colIdx staging =
     (if length staging \<le> colIdx then (Some OutOfRange, staging, [])
      else case ChunkedArray_Make (staging ! colIdx) (field_type f) of
             None \<Rightarrow> (Some Died, staging[colIdx := []], [])
           | Some chunk \<Rightarrow>
               (case collectChunks rest (Suc colIdx) (staging[colIdx := []]) of
                  (e, staging', cs) \<Rightarrow> (e, staging', chunk # cs)))"

text \<open>The opening of the encoder at the head of the flush, when there is none yet.\<close>

definition openWriter ::
  "encoder_lib \<Rightarrow> writer \<Rightarrow> arrow_context \<Rightarrow> error + (arrow_context \<times> arrow_data_buffer_sink)" where
  "openWriter E w ctx =
     (case writer ctx of
        Some fw \<Rightarrow> Inr (ctx, stream w)
      | None \<Rightarrow>
          (case schema ctx of
             None \<Rightarrow> Inl NullDereference
           | Some sch \<Rightarrow>
               (case FileWriter_Open E sch (properties ctx) (writeInt96 w) of
                  Inl m \<Rightarrow> Inl (ParquetError m)
                | Inr bytes \<Rightarrow>
                    Inr (ctx\<lparr>writer := Some \<lparr>fw_schema = sch, fw_properties = properties ctx,
                                              fw_int96 = writeInt96 w, fw_tables = []\<rparr>\<rparr>,
                         Write (stream w) bytes))))"

text \<open>
  The body of \<^verbatim>\<open>Writer::flush\<close> under \<^verbatim>\<open>stagingRows > 0\<close>. A call that throws leaves the
  writer as it was at that point, which the second component records.
\<close>

definition flushStaged :: "encoder_lib \<Rightarrow> writer \<Rightarrow> arrow_context \<Rightarrow> error option \<times> writer" where
  "flushStaged E w ctx =
     (case openWriter E w ctx of
        Inl e \<Rightarrow> (Some e, w)
      | Inr (ctx1, st1) \<Rightarrow>
          (case schema ctx1 of
             None \<Rightarrow> (Some NullDereference, w\<lparr>arrowContext := Some ctx1, stream := st1\<rparr>)
           | Some sch \<Rightarrow>
               (case collectChunks sch 0 (stagingChunks ctx1) of
                  (Some e, staging2, cs) \<Rightarrow>
                    (Some e, w\<lparr>arrowContext := Some (ctx1\<lparr>stagingChunks := staging2\<rparr>),
                              stream := st1\<rparr>)
                | (None, staging2, cs) \<Rightarrow>
                    (let ctx2 = ctx1\<lparr>stagingChunks := staging2\<rparr>;
                         tbl = Table_Make sch cs (stagingRows ctx2)
                     in case writer ctx2 of
                          None \<Rightarrow>
                            (Some NullDereference, w\<lparr>arrowContext := Some ctx2, stream := st1\<rparr>)
                        | Some fw \<Rightarrow>
                            (case WriteTable E fw tbl (rowsInRowGroup (flushPolicy w)) of
                               Inl m \<Rightarrow>
                                 (Some (ParquetError m),
                                  w\<lparr>arrowContext := Some ctx2, stream := st1\<rparr>)
                             | Inr bytes \<Rightarrow>
                                 (let fw' = fw\<lparr>fw_tables := fw_tables fw @
                                                [(tbl, rowsInRowGroup (flushPolicy w))]\<rparr>;
                                      ctx3 = ctx2\<lparr>writer := Some fw'\<rparr>
                                  in case Flush (Write st1 bytes) of
                                       (Some e, st3) \<Rightarrow>
                                         (Some e, w\<lparr>arrowContext := Some ctx3, stream := st3\<rparr>)
                                     | (None, st3) \<Rightarrow>
                                         (None,
                                          w\<lparr>arrowContext :=
                                              Some (ctx3\<lparr>stagingChunks :=
                                                           map (\<lambda>chunk. []) (stagingChunks ctx3),
                                                         stagingRows := 0,
                                                         stagingBytes := 0\<rparr>),
                                            stream := st3\<rparr>)))))))"

definition flush :: "encoder_lib \<Rightarrow> writer \<Rightarrow> error option \<times> writer" where
  "flush E w =
     (case arrowContext w of
        None \<Rightarrow> (Some NullDereference, w)
      | Some ctx \<Rightarrow> (if 0 < stagingRows ctx then flushStaged E w ctx else (None, w)))"

text \<open>
  \<^verbatim>\<open>Writer::write\<close> up to the imported record batch: the check of the type, the
  flattening, the export, the renaming of the fields and the import, against the logical
  schema \<^verbatim>\<open>schema_\<close> of the writer. Nothing of the writer changes here. The two calls of
  \<^verbatim>\<open>TestValue::adjust\<close> are hooks for tests and are left out.
\<close>

definition convertBatch :: "bridge \<Rightarrow> row_type \<Rightarrow> vector \<Rightarrow> error + record_batch" where
  "convertBatch B rowType data =
     (if \<not> equivalent (vectorType data) (ROW rowType)
      then Inl (UserError
                  ''The file schema type should be equal with the input rowvector type.'')
      else case needFlatten data of
             Inl e \<Rightarrow> Inl e
           | Inr need \<Rightarrow>
               (case (if need then flattenVector B data else Inr data) of
                  Inl m \<Rightarrow> Inl (BridgeError m)
                | Inr exportData \<Rightarrow>
                    (case exportArray B exportData of
                       Inl m \<Rightarrow> Inl (BridgeError m)
                     | Inr array \<Rightarrow>
                         (case exportSchema B exportData of
                            Inl m \<Rightarrow> Inl (BridgeError m)
                          | Inr cschema \<Rightarrow>
                              (case ImportSchema cschema of
                                 None \<Rightarrow> Inl Died
                               | Some arrowSchema \<Rightarrow>
                                   (case updateChildren (Some arrowSchema) rowType of
                                      Inl e \<Rightarrow> Inl e
                                    | Inr newFields \<Rightarrow> ImportRecordBatch array newFields))))))"

text \<open>The last loop of \<^verbatim>\<open>Writer::write\<close>: column by column, \<^verbatim>\<open>at(colIdx).push_back\<close>.\<close>

fun stageColumns ::
  "arrow_array list \<Rightarrow> nat \<Rightarrow> arrow_array list list \<Rightarrow> error option \<times> arrow_array list list" where
  "stageColumns [] colIdx staging = (None, staging)"
| "stageColumns (c # cs) colIdx staging =
     (if length staging \<le> colIdx then (Some OutOfRange, staging)
      else stageColumns cs (Suc colIdx) (staging[colIdx := staging ! colIdx @ [c]]))"

definition stage :: "record_batch \<Rightarrow> int \<Rightarrow> 64 word \<Rightarrow> writer \<Rightarrow> error option \<times> writer" where
  "stage recordBatch numRows bytes w =
     (case arrowContext w of
        None \<Rightarrow> (Some NullDereference, w)
      | Some ctx \<Rightarrow>
          (case stageColumns (rb_columns recordBatch) 0 (stagingChunks ctx) of
             (Some e, staging) \<Rightarrow>
               (Some e, w\<lparr>arrowContext := Some (ctx\<lparr>stagingChunks := staging\<rparr>)\<rparr>)
           | (None, staging) \<Rightarrow>
               (None,
                w\<lparr>arrowContext :=
                    Some (ctx\<lparr>stagingChunks := staging,
                               stagingRows := stagingRows ctx + word_of_int numRows,
                               stagingBytes := stagingBytes ctx + bytes\<rparr>)\<rparr>)))"

text \<open>The first batch fixes the canonical schema and adds one empty sequence per field.\<close>

definition initSchema :: "record_batch \<Rightarrow> arrow_context \<Rightarrow> arrow_context" where
  "initSchema recordBatch ctx =
     (if schema ctx = None
      then ctx\<lparr>schema := Some (rb_schema recordBatch),
               stagingChunks :=
                 stagingChunks ctx @ replicate (length (rb_schema recordBatch)) []\<rparr>
      else ctx)"

definition "write" :: "bridge \<Rightarrow> encoder_lib \<Rightarrow> writer \<Rightarrow> vector \<Rightarrow> error option \<times> writer" where
  "write B E w data =
     (case convertBatch B (writerSchema w) data of
        Inl e \<Rightarrow> (Some e, w)
      | Inr recordBatch \<Rightarrow>
          (case arrowContext w of
             None \<Rightarrow> (Some NullDereference, w)
           | Some ctx \<Rightarrow>
               (let ctx1 = initSchema recordBatch ctx;
                    w1 = w\<lparr>arrowContext := Some ctx1\<rparr>;
                    bytes = estimateFlatSize data;
                    numRows = vectorSize data
                in case (if shouldFlush (flushPolicy w1) (stagingRows ctx1) (stagingBytes ctx1)
                         then flush E w1 else (None, w1)) of
                     (Some e, w2) \<Rightarrow> (Some e, w2)
                   | (None, w2) \<Rightarrow> stage recordBatch numRows bytes w2)))"

definition close :: "encoder_lib \<Rightarrow> writer \<Rightarrow> error option \<times> writer" where
  "close E w =
     (case flush E w of
        (Some e, w1) \<Rightarrow> (Some e, w1)
      | (None, w1) \<Rightarrow>
          (case arrowContext w1 of
             None \<Rightarrow> (Some NullDereference, w1)
           | Some ctx \<Rightarrow>
               (case (case writer ctx of
                        None \<Rightarrow> Inr w1
                      | Some fw \<Rightarrow>
                          (case FileWriter_Close E fw of
                             Inl m \<Rightarrow> Inl (ParquetError m)
                           | Inr bytes \<Rightarrow>
                               Inr (w1\<lparr>arrowContext := Some (ctx\<lparr>writer := None\<rparr>),
                                       stream := Write (stream w1) bytes\<rparr>))) of
                  Inl e \<Rightarrow> (Some e, w1)
                | Inr w2 \<Rightarrow>
                    (case Close (stream w2) of
                       (Some e, st) \<Rightarrow> (Some e, w2\<lparr>stream := st\<rparr>)
                     | (None, st) \<Rightarrow>
                         (None,
                          w2\<lparr>stream := st,
                             arrowContext :=
                               map_option (\<lambda>c. c\<lparr>stagingChunks := []\<rparr>) (arrowContext w2)\<rparr>)))))"

definition abort :: "writer \<Rightarrow> writer" where
  "abort w = w\<lparr>stream := abort_sink (stream w), arrowContext := None\<rparr>"

text \<open>Sequences of public calls on one writer, stopping at the first call that fails.\<close>

datatype writer_op = DoWrite vector | DoFlush | DoClose | DoAbort

fun writer_step :: "bridge \<Rightarrow> encoder_lib \<Rightarrow> writer_op \<Rightarrow> writer \<Rightarrow> error option \<times> writer" where
  "writer_step B E (DoWrite data) w = write B E w data"
| "writer_step B E DoFlush w = flush E w"
| "writer_step B E DoClose w = close E w"
| "writer_step B E DoAbort w = (None, abort w)"

fun writer_run :: "bridge \<Rightarrow> encoder_lib \<Rightarrow> writer_op list \<Rightarrow> writer \<Rightarrow> error option \<times> writer" where
  "writer_run B E [] w = (None, w)"
| "writer_run B E (op # ops) w =
     (case writer_step B E op w of
        (Some e, w') \<Rightarrow> (Some e, w')
      | (None, w') \<Rightarrow> writer_run B E ops w')"

section \<open>A concrete environment\<close>

text \<open>
  One instance of everything that the model takes as given, for evaluating the
  definitions on concrete inputs: a bridge that exports a batch under the names of its
  own type, an encoder library that writes a few bytes per call, a destination that
  accepts everything.
\<close>

fun demo_kind_name :: "type_kind \<Rightarrow> string" where
  "demo_kind_name BIGINT = ''int64''"
| "demo_kind_name INTEGER = ''int32''"
| "demo_kind_name VARCHAR = ''utf8''"
| "demo_kind_name k = ''other''"

fun demo_export_type :: "vtype \<Rightarrow> arrow_type" where
  "demo_export_type (SCALAR k) = APrimitive (demo_kind_name k)"
| "demo_export_type (ARRAY t) = AList (Field ''item'' (demo_export_type t) True)"
| "demo_export_type (MAP k v) =
     AMap (Field ''key'' (demo_export_type k) False) (Field ''value'' (demo_export_type v) True)
       False"
| "demo_export_type (ROW fs) =
     AStruct (map (\<lambda>f. Field (fst f) (demo_export_type (snd f)) True) fs)"

definition demo_bridge :: bridge where
  "demo_bridge =
     \<lparr>flattenVector = Inr,
      exportArray = (\<lambda>v. Inr (payload v)),
      exportSchema = (\<lambda>v. Inr (Field [] (demo_export_type (vectorType v)) False))\<rparr>"

definition demo_encoder :: encoder_lib where
  "demo_encoder =
     \<lparr>FileWriter_Open = (\<lambda>sch props int96. Inr [80, 65, 82, 49]),
      WriteTable = (\<lambda>fw tbl n. Inr [1]),
      FileWriter_Close = (\<lambda>fw. Inr [2, 80, 65, 82, 49])\<rparr>"

definition demo_sink :: file_sink where
  "demo_sink = \<lparr>written = [], isClosed = False, failing = False\<rparr>"

definition demo_defaults :: defaults where
  "demo_defaults =
     \<lparr>DEFAULT_IS_DICTIONARY_ENABLED = True,
      DEFAULT_DICTIONARY_PAGE_SIZE_LIMIT = 1048576,
      kDefaultDataPageSize = 1048576,
      DEFAULT_WRITE_BATCH_SIZE = 1024,
      defaultFlushPolicy = DefaultFlushPolicy 1048576 134217728\<rparr>"

definition demo_options :: writer_options where
  "demo_options =
     \<lparr>enableDictionary = None, dictionaryPageSizeLimit = None, compressionKind = None,
      columnCompressionsMap = [], encoding = 0, dataPageSize = None, batchSize = None,
      codecOptions = 0, useParquetDataPageV2 = None, createdBy = None,
      flushPolicyFactory = Some (DefaultFlushPolicy 1000 134217728),
      writeInt96AsTimestamp = False, bufferGrowRatio = (\<lambda>n. 2 * n)\<rparr>"

definition demo_pool :: memory_pool where
  "demo_pool = \<lparr>isLeaf = False, reclaimer = False, parentReclaimer = None\<rparr>"

definition demo_schema :: row_type where
  "demo_schema = [(''a'', SCALAR BIGINT), (''b'', SCALAR VARCHAR)]"

definition demo_flat_child :: child_vector where
  "demo_flat_child =
     \<lparr>vectorEncoding = Simple_FLAT, valueVector = False, wrappedIsFlatEncoding = True,
      isScalar = True\<rparr>"

definition demo_batch :: "int \<Rightarrow> nat \<Rightarrow> vector" where
  "demo_batch n d =
     \<lparr>vectorType = ROW demo_schema, rowVector = Some [demo_flat_child, demo_flat_child],
      vectorSize = n, estimateFlatSize = 4800, payload = [d, Suc d]\<rparr>"

text \<open>The writer that the constructor yields on these inputs.\<close>

definition demo_properties :: "property list" where
  "demo_properties =
     [enable_dictionary, dictionary_pagesize_limit 1048576, compression UNCOMPRESSED,
      encoding_property 0, data_pagesize 1048576, write_batch_size 1024,
      max_row_group_length 1000, codec_options 0, enable_store_decimal_as_integer,
      data_page_version_V1]"

definition demo_context :: arrow_context where
  "demo_context =
     \<lparr>writer = None, schema = None, properties = demo_properties,
      stagingRows = 0, stagingBytes = 0, stagingChunks = []\<rparr>"

definition demo_writer :: writer where
  "demo_writer =
     \<lparr>pool = demo_pool,
      stream = ArrowDataBufferSink demo_sink (\<lambda>n. 2 * n),
      arrowContext = Some demo_context,
      writerSchema = demo_schema,
      flushPolicy = DefaultFlushPolicy 1000 134217728,
      writeInt96 = False\<rparr>"

text \<open>The same writer with one batch of 600 rows staged.\<close>

definition demo_fields :: "arrow_field list" where
  "demo_fields =
     [Field ''a'' (APrimitive ''int64'') True, Field ''b'' (APrimitive ''utf8'') True]"

definition demo_arrays :: "nat \<Rightarrow> arrow_array list" where
  "demo_arrays d =
     [\<lparr>array_type = APrimitive ''int64'', array_data = d\<rparr>,
      \<lparr>array_type = APrimitive ''utf8'', array_data = Suc d\<rparr>]"

definition demo_staged_context :: arrow_context where
  "demo_staged_context =
     \<lparr>writer = None, schema = Some demo_fields, properties = demo_properties,
      stagingRows = 600, stagingBytes = 4800,
      stagingChunks = map (\<lambda>c. [c]) (demo_arrays 0)\<rparr>"

definition demo_staged_writer :: writer where
  "demo_staged_writer = demo_writer\<lparr>arrowContext := Some demo_staged_context\<rparr>"

text \<open>A converted map field, with the positional names that a conversion may give.\<close>

definition demo_key_field :: arrow_field where
  "demo_key_field = Field ''k0'' (APrimitive ''utf8'') False"

definition demo_item_field :: arrow_field where
  "demo_item_field = Field ''v0'' (AStruct [Field ''f0'' (APrimitive ''int32'') True]) True"

definition demo_map_field :: arrow_field where
  "demo_map_field = Field ''m0'' (AMap demo_key_field demo_item_field False) True"

definition demo_map_type :: vtype where
  "demo_map_type = MAP (SCALAR VARCHAR) (ROW [(''x'', SCALAR INTEGER)])"

text \<open>Batches that the writer above must reject, and one that it accepts.\<close>

definition demo_renamed_batch :: vector where
  "demo_renamed_batch =
     (demo_batch 600 0)\<lparr>vectorType := ROW [(''x'', SCALAR BIGINT), (''y'', SCALAR VARCHAR)]\<rparr>"

definition demo_wrapped_batch :: vector where
  "demo_wrapped_batch = (demo_batch 600 0)\<lparr>rowVector := None\<rparr>"

definition demo_flat_vector :: vector where
  "demo_flat_vector =
     \<lparr>vectorType = SCALAR BIGINT, rowVector = None, vectorSize = 600, estimateFlatSize = 4800,
      payload = [0]\<rparr>"

text \<open>The errors raised by \<^verbatim>\<open>VELOX_USER_CHECK\<close> and its kin.\<close>

fun user_error :: "error \<Rightarrow> bool" where
  "user_error (UserError m) = True"
| "user_error e = False"

section \<open>Materialized tables\<close>

text \<open>
  The table that a flush is claimed to hand to the encoder, in the specification's words:
  one chunked column per field of the canonical schema, holding exactly the fragments
  staged for that column, in order, and tagged with the staged row count.
\<close>

definition chunked :: "arrow_array list \<times> arrow_field \<Rightarrow> chunked_array" where
  "chunked p = \<lparr>chunks = fst p, chunked_type = field_type (snd p)\<rparr>"

definition materialize :: "arrow_field list \<Rightarrow> arrow_array list list \<Rightarrow> 64 word \<Rightarrow> table" where
  "materialize sch staging rows = Table_Make sch (map chunked (zip staging sch)) rows"

text \<open>Every staged fragment of a column has the type of that column's field.\<close>

definition well_typed :: "arrow_array list list \<Rightarrow> arrow_field list \<Rightarrow> bool" where
  "well_typed staging sch =
     list_all (\<lambda>p. list_all (\<lambda>a. array_type a = field_type (snd p)) (fst p)) (zip staging sch)"

section \<open>The accumulator of the specification\<close>

text \<open>
  What one successful \<^verbatim>\<open>write\<close> contributes to the staging buffer: the columns of the
  converted batch, its row count and its byte estimate.
\<close>

type_synonym staged = "arrow_array list \<times> int \<times> 64 word"

definition stagedOf :: "bridge \<Rightarrow> row_type \<Rightarrow> vector \<Rightarrow> staged" where
  "stagedOf B rowType data =
     (case convertBatch B rowType data of
        Inl e \<Rightarrow> ([], vectorSize data, estimateFlatSize data)
      | Inr recordBatch \<Rightarrow> (rb_columns recordBatch, vectorSize data, estimateFlatSize data))"

definition rowsOf :: "staged list \<Rightarrow> 64 word" where
  "rowsOf bs = sum_list (map (\<lambda>b. word_of_int (fst (snd b))) bs)"

definition bytesOf :: "staged list \<Rightarrow> 64 word" where
  "bytesOf bs = sum_list (map (\<lambda>b. snd (snd b)) bs)"

text \<open>
  The per-column fragment sequences of a list of whole batches, and the table made of
  them.
\<close>

definition columnsOf :: "nat \<Rightarrow> staged list \<Rightarrow> arrow_array list list" where
  "columnsOf n bs = map (\<lambda>i. map (\<lambda>b. fst b ! i) bs) [0..<n]"

definition tableOf :: "arrow_field list \<Rightarrow> staged list \<Rightarrow> table" where
  "tableOf sch bs = materialize sch (columnsOf (length sch) bs) (rowsOf bs)"

text \<open>
  The row-group accumulator in the words of the specification (section 4.3): its state
  is the list of groups emitted so far and the batches staged since. A write (\<open>Some b\<close>)
  consults the policy on the counters of what is staged \<^emph>\<open>before\<close> \<open>b\<close>; when the policy
  says so and rows are staged, the staged batches are emitted as one group and \<open>b\<close> starts
  the next one; otherwise \<open>b\<close> joins the staged batches. A flush (\<open>None\<close>) emits the staged
  batches as one group when rows are staged.
\<close>

fun accumulate ::
  "flush_policy \<Rightarrow> staged list list \<times> staged list \<Rightarrow> staged option list
     \<Rightarrow> staged list list \<times> staged list" where
  "accumulate P (groups, cur) [] = (groups, cur)"
| "accumulate P (groups, cur) (None # ops) =
     accumulate P (if 0 < rowsOf cur then (groups @ [cur], []) else (groups, cur)) ops"
| "accumulate P (groups, cur) (Some b # ops) =
     accumulate P
       (if shouldFlush P (rowsOf cur) (bytesOf cur) \<and> 0 < rowsOf cur
        then (groups @ [cur], [b]) else (groups, cur @ [b]))
       ops"

text \<open>The calls that stage and flush, and what they are to the accumulator.\<close>

fun staging_op :: "writer_op \<Rightarrow> bool" where
  "staging_op (DoWrite data) = True"
| "staging_op DoFlush = True"
| "staging_op DoClose = False"
| "staging_op DoAbort = False"

fun abstractOp :: "bridge \<Rightarrow> row_type \<Rightarrow> writer_op \<Rightarrow> staged option" where
  "abstractOp B rowType (DoWrite data) = Some (stagedOf B rowType data)"
| "abstractOp B rowType op = None"

text \<open>The tables that the encoder handle of a context has been given.\<close>

definition tablesWritten :: "arrow_context \<Rightarrow> table list" where
  "tablesWritten ctx = (case writer ctx of None \<Rightarrow> [] | Some fw \<Rightarrow> map fst (fw_tables fw))"

text \<open>
  The writer holds what the accumulator holds: the groups are the tables given to the
  encoder, the staged batches are the staged sequences and counters.
\<close>

definition staging_inv :: "writer \<Rightarrow> staged list list \<Rightarrow> staged list \<Rightarrow> bool" where
  "staging_inv w groups cur =
     (case arrowContext w of
        None \<Rightarrow> False
      | Some ctx \<Rightarrow>
          stagingRows ctx = rowsOf cur \<and> stagingBytes ctx = bytesOf cur
          \<and> list_all (\<lambda>b. length (fst b) = length (writerSchema w)) (concat groups @ cur)
          \<and> (case schema ctx of
                None \<Rightarrow> stagingChunks ctx = [] \<and> cur = [] \<and> groups = [] \<and> writer ctx = None
              | Some sch \<Rightarrow>
                  length sch = length (writerSchema w)
                  \<and> stagingChunks ctx = columnsOf (length sch) cur
                  \<and> tablesWritten ctx = map (tableOf sch) groups))"

text \<open>
  A group exceeds the policy's thresholds by at most its last batch: without that batch
  it had no rows or did not make the policy ask for a flush.
\<close>

definition one_batch_over :: "flush_policy \<Rightarrow> staged list \<Rightarrow> bool" where
  "one_batch_over P g =
     (g \<noteq> [] \<and> (rowsOf (butlast g) = 0
                \<or> \<not> shouldFlush P (rowsOf (butlast g)) (bytesOf (butlast g))))"

text \<open>The accumulator run on the batches of a list of inputs, from empty.\<close>

definition accumulated :: "bridge \<Rightarrow> writer \<Rightarrow> vector list \<Rightarrow> staged list list \<times> staged list" where
  "accumulated B w ds =
     accumulate (flushPolicy w) ([], []) (map (\<lambda>d. Some (stagedOf B (writerSchema w) d)) ds)"

section \<open>Properties of the buffering sink\<close>

lemma Write_fields:
  "buffer (Write s d) = buffer s @ d"
  "bytesFlushed (Write s d) = bytesFlushed s"
  "sink (Write s d) = sink s"
  by (simp_all add: Write_def append_def reserve_def Let_def)

lemma Flush_bytesFlushed:
  "bytesFlushed (snd (Flush s)) = bytesFlushed s + of_nat (length (buffer s))"
  by (simp add: Flush_def Let_def split: option.splits sum.splits)

lemma Flush_buffer: "buffer (snd (Flush s)) = (if sink s = None then buffer s else [])"
  by (simp add: Flush_def Let_def split: option.splits sum.splits)

text \<open>
  Claim C7. \<^verbatim>\<open>Tell()\<close> is a \<^verbatim>\<open>const\<close> member whose body only reads the two fields, so it
  is a function of the state and calling it neither flushes nor changes anything. After
  every sequence of \<^verbatim>\<open>Write\<close> and \<^verbatim>\<open>Flush\<close> calls (run up to the first call that fails)
  its value is the counter at the start plus the sizes that the flushes accumulated plus
  the number of bytes now held in the buffer, in 64-bit arithmetic; and the counter
  \<open>bytesFlushed\<close> is exactly that running total of the flushes.
\<close>

theorem Tell_running_total:
  "Tell (snd (sink_run ops s)) =
     bytesFlushed s + of_nat (sum_list (flush_sizes ops s))
       + of_nat (length (buffer (snd (sink_run ops s))))
   \<and> bytesFlushed (snd (sink_run ops s)) =
       bytesFlushed s + of_nat (sum_list (flush_sizes ops s))"
proof (induction ops arbitrary: s)
  case Nil
  show ?case by (simp add: Tell_def)
next
  case (Cons op ops)
  show ?case
  proof (cases op)
    case (OpWrite d)
    then show ?thesis using Cons.IH [of "Write s d"] by (simp add: Write_fields)
  next
    case OpFlush
    obtain r s1 where F: "Flush s = (r, s1)" by (cases "Flush s")
    have b: "bytesFlushed s1 = bytesFlushed s + of_nat (length (buffer s))"
      using Flush_bytesFlushed [of s] F by simp
    show ?thesis
    proof (cases r)
      case None
      then show ?thesis using OpFlush F b Cons.IH [of s1] by simp
    next
      case (Some e)
      then show ?thesis using OpFlush F b by (simp add: Tell_def)
    qed
  qed
qed

section \<open>Schema validation\<close>

text \<open>
  Claim C6. The claim asks construction to fail exactly when some struct level of the
  schema, wherever it is nested, has an empty or a repeated field name. For the schema
  \<open>ROW(a: ARRAY(ROW(x: INTEGER, x: INTEGER)))\<close> the inner struct repeats a name, yet
  \<^verbatim>\<open>validateSchemaRecursive\<close> accepts it and the constructor yields a writer: the second
  loop only descends into children that are themselves row types, so a struct below an
  array (or a map) is never looked at. The same struct directly below the top level is
  rejected.
\<close>

theorem validate_misses_struct_in_array:
  "spec_invalid [(''a'', ARRAY (ROW [(''x'', SCALAR INTEGER), (''x'', SCALAR INTEGER)]))]
   \<and> validateSchema (Some [(''a'', ARRAY (ROW [(''x'', SCALAR INTEGER), (''x'', SCALAR INTEGER)]))])
       = None
   \<and> \<not> isl (Writer demo_defaults demo_sink demo_options demo_pool
         (Some [(''a'', ARRAY (ROW [(''x'', SCALAR INTEGER), (''x'', SCALAR INTEGER)]))]))
   \<and> validateSchema (Some [(''a'', ROW [(''x'', SCALAR INTEGER), (''x'', SCALAR INTEGER)])])
       = Some (UserError ''File schema should not have duplicate columns: x'')"
  by (simp add: spec_invalid_def bad_level_def validateSchema_def Writer_def
      demo_defaults_def demo_options_def demo_pool_def
      getArrowParquetWriterOptions_def setMemoryReclaimers_def Let_def)

section \<open>Reconciliation of map fields\<close>

text \<open>
  Claim C2, as the code has it. For a converted field of map type, reconciliation recurses
  into the key field against the logical key type and into the item field against the
  logical value type, each with the default empty name, the key first. The map type
  is then rebuilt by \<^verbatim>\<open>::arrow::map\<close> from the \<^emph>\<open>types\<close> of the two reconciled fields: every
  name that reconciliation gave to a field nested inside the key or the value is in the
  result, while the key field and the item field themselves are the library's own
  (\<open>key\<close>, not nullable, and \<open>value\<close>), and \<^verbatim>\<open>keys_sorted\<close> is reset.
\<close>

theorem updateFieldNameRecursive_map:
  assumes "updateFieldNameRecursive keyField keyType [] = Inr newKeyField"
    and "updateFieldNameRecursive itemField valueType [] = Inr newValueField"
  shows "updateFieldNameRecursive (Field n (AMap keyField itemField keysSorted) nullable)
           (MAP keyType valueType) name =
         Inr (Field name
                (AMap (Field ''key'' (field_type newKeyField) False)
                      (Field ''value'' (field_type newValueField) True) False)
                nullable)"
  using assms by (simp add: WithName_def WithType_def map_type_def)

theorem updateFieldNameRecursive_map_witness:
  "updateFieldNameRecursive demo_key_field (SCALAR VARCHAR) [] = Inr demo_key_field
   \<and> updateFieldNameRecursive demo_item_field (ROW [(''x'', SCALAR INTEGER)]) [] =
       Inr (Field [] (AStruct [Field ''x'' (APrimitive ''int32'') True]) True)
   \<and> updateFieldNameRecursive demo_map_field demo_map_type ''m'' =
       Inr (Field ''m''
              (AMap (Field ''key'' (APrimitive ''utf8'') False)
                    (Field ''value'' (AStruct [Field ''x'' (APrimitive ''int32'') True]) True)
                    False)
              True)"
proof -
  have k: "updateFieldNameRecursive demo_key_field (SCALAR VARCHAR) [] = Inr demo_key_field"
    by (simp add: demo_key_field_def)
  have v: "updateFieldNameRecursive demo_item_field (ROW [(''x'', SCALAR INTEGER)]) [] =
             Inr (Field [] (AStruct [Field ''x'' (APrimitive ''int32'') True]) True)"
    by (simp add: demo_item_field_def WithName_def WithType_def struct_type_def)
  show ?thesis
    using updateFieldNameRecursive_map [OF k v, of "''m0''" False True "''m''"] k v
    by (simp add: demo_map_field_def demo_map_type_def demo_key_field_def)
qed

text \<open>
  The claim as stated fails on this input: the reconciled key field is \<open>k0\<close> and the
  reconciled item field has the empty name, but the key and item fields of the rebuilt
  map type are neither of them.
\<close>

theorem map_fields_rebuilt_counterexample:
  "updateFieldNameRecursive demo_key_field (SCALAR VARCHAR) [] = Inr demo_key_field
   \<and> updateFieldNameRecursive demo_item_field (ROW [(''x'', SCALAR INTEGER)]) [] =
       Inr (Field [] (AStruct [Field ''x'' (APrimitive ''int32'') True]) True)
   \<and> map_sum id (asMapType \<circ> field_type)
        (updateFieldNameRecursive demo_map_field demo_map_type ''m'') =
       Inr (Some (Field ''key'' (APrimitive ''utf8'') False,
                  Field ''value'' (AStruct [Field ''x'' (APrimitive ''int32'') True]) True))
   \<and> Field ''key'' (APrimitive ''utf8'') False \<noteq> demo_key_field
   \<and> Field ''value'' (AStruct [Field ''x'' (APrimitive ''int32'') True]) True
       \<noteq> Field [] (AStruct [Field ''x'' (APrimitive ''int32'') True]) True"
  by (simp add: demo_map_field_def demo_map_type_def demo_key_field_def demo_item_field_def
      WithName_def WithType_def struct_type_def map_type_def)

section \<open>Which errors each step can end with\<close>

lemma collectChunks_error:
  "collectChunks sch i st = (Some e, st', cs) \<Longrightarrow> e = OutOfRange \<or> e = Died"
  by (induction sch i st arbitrary: st' cs rule: collectChunks.induct)
     (auto split: if_splits option.splits prod.splits)

lemma Flush_error: "Flush s = (Some e, s') \<Longrightarrow> e = NullDereference \<or> e = IOError"
  by (auto simp: Flush_def Let_def sink_write_def split: option.splits sum.splits if_splits)

lemma Close_error: "Close s = (Some e, s') \<Longrightarrow> e = NullDereference \<or> e = IOError"
  by (auto simp: Close_def sink_close_def split: option.splits sum.splits if_splits prod.splits
      dest: Flush_error)

lemma openWriter_error: "openWriter E w ctx = Inl e \<Longrightarrow> \<not> user_error e"
  by (auto simp: openWriter_def split: option.splits sum.splits)

lemma flushStaged_error: "flushStaged E w ctx = (Some e, w') \<Longrightarrow> \<not> user_error e"
  unfolding flushStaged_def Let_def
  by (auto split: sum.splits prod.splits option.splits
      dest!: openWriter_error collectChunks_error Flush_error)

lemma flush_error: "flush E w = (Some e, w') \<Longrightarrow> \<not> user_error e"
  by (auto simp: flush_def split: option.splits if_splits dest: flushStaged_error)

lemma updateFieldName_error:
  "updateFieldNameRecursive f t n = Inl e \<Longrightarrow> e = NullDereference \<or> e = OutOfBounds"
  "updateChildren fs cs = Inl e \<Longrightarrow> e = NullDereference \<or> e = OutOfBounds"
proof (induction f t n and fs cs rule: updateFieldNameRecursive_updateChildren.induct)
  case (1 field rowType name)
  then show ?case by (simp add: Let_def split: sum.splits)
next
  case (2 field elementType name)
  then show ?case by (simp add: Let_def split: sum.splits option.splits)
next
  case (3 field keyType valueType name)
  then show ?case by (simp add: Let_def split: sum.splits option.splits prod.splits)
next
  case (4 field k name)
  then show ?case by (simp split: if_splits)
next
  case (5 structFields)
  then show ?case by simp
next
  case (6 c cs)
  then show ?case by simp
next
  case (7 c cs)
  then show ?case by simp
next
  case (8 f fs n t cs)
  then show ?case by (simp split: sum.splits)
qed

lemma stageColumns_error: "stageColumns cs i st = (Some e, st') \<Longrightarrow> e = OutOfRange"
  by (induction cs i st rule: stageColumns.induct) (auto split: if_splits)

lemma stage_error: "stage rb n b w = (Some e, w') \<Longrightarrow> \<not> user_error e"
  by (auto simp: stage_def split: option.splits prod.splits dest: stageColumns_error)

lemma convertBatch_error:
  "convertBatch B rowType d = Inl e \<Longrightarrow> equivalent (vectorType d) (ROW rowType) \<Longrightarrow> \<not> user_error e"
  by (auto simp: convertBatch_def needFlatten_def ImportRecordBatch_def
      split: sum.splits option.splits if_splits dest: updateFieldName_error)

lemma write_error:
  "write B E w d = (Some e, w') \<Longrightarrow> equivalent (vectorType d) (ROW (writerSchema w)) \<Longrightarrow> \<not> user_error e"
  unfolding write_def Let_def
  by (auto split: sum.splits option.splits prod.splits if_splits
      dest: convertBatch_error flush_error stage_error)

section \<open>The checks at the head of write\<close>

text \<open>
  Claim C1. Whenever the logical type of the batch differs from the writer's schema (in
  the order, the names or the types of the fields, at any depth), \<^verbatim>\<open>write\<close> raises the
  usage error of its first statement and leaves the writer exactly as it was; this holds
  for every bridge and every encoder, neither of which is consulted. Whenever the type
  equals the schema, no usage error comes out of \<^verbatim>\<open>write\<close>, whatever else happens. The
  comparison itself is \<open>equivalent\<close>, which is modelled from the specification.
\<close>

theorem write_schema_check:
  "(vectorType data \<noteq> ROW (writerSchema w) \<longrightarrow>
      write B E w data =
        (Some (UserError ''The file schema type should be equal with the input rowvector type.''),
         w))
   \<and> (vectorType data = ROW (writerSchema w) \<longrightarrow>
        (\<forall>m. fst (write B E w data) \<noteq> Some (UserError m)))"
proof (intro conjI impI allI)
  assume "vectorType data \<noteq> ROW (writerSchema w)"
  then show "write B E w data =
        (Some (UserError ''The file schema type should be equal with the input rowvector type.''),
         w)"
    by (simp add: write_def convertBatch_def equivalent_def)
next
  fix m
  assume eq: "vectorType data = ROW (writerSchema w)"
  show "fst (write B E w data) \<noteq> Some (UserError m)"
  proof
    assume "fst (write B E w data) = Some (UserError m)"
    then have "write B E w data = (Some (UserError m), snd (write B E w data))"
      by (metis prod.collapse)
    from write_error [OF this] eq show False by (simp add: equivalent_def)
  qed
qed

theorem write_schema_check_witness:
  "write demo_bridge demo_encoder demo_writer demo_renamed_batch =
     (Some (UserError ''The file schema type should be equal with the input rowvector type.''),
      demo_writer)
   \<and> fst (write demo_bridge demo_encoder demo_writer (demo_batch 600 0)) \<noteq>
       Some (UserError ''The file schema type should be equal with the input rowvector type.'')"
  using write_schema_check [of demo_renamed_batch demo_writer demo_bridge demo_encoder]
    write_schema_check [of "demo_batch 600 0" demo_writer demo_bridge demo_encoder]
  by (simp add: demo_renamed_batch_def demo_batch_def demo_writer_def demo_schema_def)

text \<open>
  Claim C9, as the code has it. An input that is not a row vector never gets converted or
  staged: \<^verbatim>\<open>write\<close> raises and leaves the writer as it was. The error is the usage
  error of the type check when the type of the input differs from the schema, which is
  tested first; only an input of the right type that is not a \<^verbatim>\<open>RowVector\<close> object
  reaches \<^verbatim>\<open>needFlatten\<close> and fails its check.
\<close>

theorem write_rejects_non_row_vector:
  assumes "rowVector data = None"
  shows "write B E w data =
           (Some (if vectorType data \<noteq> ROW (writerSchema w)
                  then UserError
                         ''The file schema type should be equal with the input rowvector type.''
                  else RuntimeError ''Arrow export expects a RowVector as input data.''),
            w)"
  using assms by (simp add: write_def convertBatch_def equivalent_def needFlatten_def)

theorem write_rejects_non_row_vector_witness:
  "rowVector demo_wrapped_batch = None
   \<and> write demo_bridge demo_encoder demo_writer demo_wrapped_batch =
       (Some (RuntimeError ''Arrow export expects a RowVector as input data.''), demo_writer)"
proof -
  have h: "rowVector demo_wrapped_batch = None"
    by (simp add: demo_wrapped_batch_def)
  show ?thesis
    using write_rejects_non_row_vector [OF h, of demo_bridge demo_encoder demo_writer] h
    by (simp add: demo_wrapped_batch_def demo_batch_def demo_writer_def)
qed

text \<open>
  The claim as stated fails on a flat vector of type \<open>BIGINT\<close>: no row vector, and the
  error it gets is that of the type check, not that of the flattening check.
\<close>

theorem flat_vector_fails_type_check_counterexample:
  "rowVector demo_flat_vector = None
   \<and> write demo_bridge demo_encoder demo_writer demo_flat_vector =
       (Some (UserError ''The file schema type should be equal with the input rowvector type.''),
        demo_writer)
   \<and> needFlatten demo_flat_vector =
       Inl (RuntimeError ''Arrow export expects a RowVector as input data.'')
   \<and> UserError ''The file schema type should be equal with the input rowvector type.''
       \<noteq> RuntimeError ''Arrow export expects a RowVector as input data.''"
  by (simp add: demo_flat_vector_def write_def convertBatch_def equivalent_def needFlatten_def
      demo_writer_def)

section \<open>Calls after abort\<close>

text \<open>
  Claim C5, as the code has it. \<^verbatim>\<open>abort\<close> releases the context and the destination and
  clears the buffer. No later call tests for that: \<^verbatim>\<open>flush\<close> and \<^verbatim>\<open>close\<close> dereference
  the released context at once, and \<^verbatim>\<open>write\<close> does so as soon as its batch is converted,
  unless the conversion (the type check first) has failed before with its own error. A
  null dereference is not an error that is raised. In every case the writer stays as
  \<^verbatim>\<open>abort\<close> left it: no destination, an empty buffer.
\<close>

theorem after_abort:
  "flush E (abort w) = (Some NullDereference, abort w)
   \<and> close E (abort w) = (Some NullDereference, abort w)
   \<and> write B E (abort w) data =
       (Some (case convertBatch B (writerSchema w) data of Inl e \<Rightarrow> e | Inr recordBatch \<Rightarrow> NullDereference),
        abort w)
   \<and> \<not> raised NullDereference
   \<and> arrowContext (abort w) = None
   \<and> sink (stream (abort w)) = None
   \<and> buffer (stream (abort w)) = []"
proof -
  have c: "arrowContext (abort w) = None" by (simp add: abort_def)
  have f: "flush E (abort w) = (Some NullDereference, abort w)"
    by (simp add: flush_def c)
  have cl: "close E (abort w) = (Some NullDereference, abort w)"
    by (simp add: close_def f)
  have wr: "write B E (abort w) data =
       (Some (case convertBatch B (writerSchema w) data of Inl e \<Rightarrow> e | Inr recordBatch \<Rightarrow> NullDereference),
        abort w)"
    by (cases "convertBatch B (writerSchema w) data") (simp_all add: write_def c, simp_all add: abort_def)
  show ?thesis using c f cl wr by (simp add: abort_def abort_sink_def)
qed

text \<open>
  The claim as stated fails on the writer above: after \<^verbatim>\<open>abort\<close> the three calls neither
  return normally nor raise an error.
\<close>

theorem flush_after_abort_counterexample:
  "flush demo_encoder (abort demo_writer) = (Some NullDereference, abort demo_writer)
   \<and> close demo_encoder (abort demo_writer) = (Some NullDereference, abort demo_writer)
   \<and> write demo_bridge demo_encoder (abort demo_writer) (demo_batch 600 0) =
       (Some NullDereference, abort demo_writer)
   \<and> \<not> raised NullDereference"
  by (simp add: flush_def close_def write_def abort_def abort_sink_def convertBatch_def
      demo_batch_def demo_writer_def demo_schema_def equivalent_def needFlatten_def
      demo_flat_child_def demo_bridge_def ImportSchema_def ImportRecordBatch_def
      WithName_def)

section \<open>The loops of flush and write\<close>

lemma collectChunks_typed:
  "length pre = i \<Longrightarrow> length mid = length sch \<Longrightarrow> well_typed mid sch \<Longrightarrow>
   collectChunks sch i (pre @ mid @ post) =
     (None, pre @ replicate (length sch) [] @ post, map chunked (zip mid sch))"
proof (induction sch arbitrary: i pre mid)
  case Nil
  then show ?case by simp
next
  case (Cons f sch)
  then obtain m mid' where mid: "mid = m # mid'" by (cases mid) auto
  have len: "length mid' = length sch" using Cons.prems mid by simp
  have ty: "list_all (\<lambda>a. array_type a = field_type f) m" "well_typed mid' sch"
    using Cons.prems mid by (simp_all add: well_typed_def)
  have nth: "(pre @ m # mid' @ post) ! i = m" using Cons.prems by (simp add: nth_append)
  have upd: "(pre @ m # mid' @ post)[i := []] = (pre @ [[]]) @ mid' @ post"
    using Cons.prems by (simp add: list_update_append)
  have IH: "collectChunks sch (Suc i) ((pre @ [[]]) @ mid' @ post) =
     (None, (pre @ [[]]) @ replicate (length sch) [] @ post, map chunked (zip mid' sch))"
    using Cons.IH [of "pre @ [[]]" "Suc i" mid'] Cons.prems len ty by simp
  show ?case
    using Cons.prems mid nth upd IH ty
    by (simp add: ChunkedArray_Make_def chunked_def replicate_app_Cons_same del: append_assoc)
qed

lemma Flush_ok:
  "sink s = Some fs \<Longrightarrow> \<not> failing fs \<Longrightarrow>
   Flush s = (None, s\<lparr>bytesFlushed := bytesFlushed s + of_nat (length (buffer s)),
                      sink := Some (fs\<lparr>written := written fs @ [buffer s]\<rparr>),
                      buffer := [], capacity := 0\<rparr>)"
  by (simp add: Flush_def sink_write_def Let_def)

lemma Close_ok:
  "sink s = Some fs \<Longrightarrow> \<not> failing fs \<Longrightarrow>
   Close s = (None, s\<lparr>bytesFlushed := bytesFlushed s + of_nat (length (buffer s)),
                      sink := Some (fs\<lparr>written := written fs @ [buffer s], isClosed := True\<rparr>),
                      buffer := [], capacity := 0\<rparr>)"
  by (simp add: Close_def Flush_ok sink_close_def)

lemma Write_sink_buffer:
  "sink (Write s d) = sink s" "buffer (Write s d) = buffer s @ d"
  "bytesFlushed (Write s d) = bytesFlushed s" "growRatio (Write s d) = growRatio s"
  by (simp_all add: Write_def append_def reserve_def Let_def)

lemma updateChildren_length:
  "updateChildren fs cs = Inr fs' \<Longrightarrow> length fs' = length cs"
proof (induction cs arbitrary: fs fs')
  case Nil
  then show ?case by simp
next
  case (Cons c cs)
  obtain n t where c: "c = (n, t)" by (cases c)
  show ?case
  proof (cases fs)
    case None
    then show ?thesis using Cons.prems by simp
  next
    case (Some l)
    show ?thesis
    proof (cases l)
      case Nil
      then show ?thesis using Cons.prems Some by simp
    next
      case (Cons f rest)
      then show ?thesis using Cons.prems Some c Cons.IH [of "Some rest"]
        by (auto split: sum.splits)
    qed
  qed
qed

lemma convertBatch_columns:
  assumes "convertBatch B rowType d = Inr rb"
  shows "length (rb_columns rb) = length rowType \<and> length (rb_schema rb) = length rowType"
proof -
  from assms obtain array newFields where
    u: "ImportRecordBatch array newFields = Inr rb" and
    l: "length newFields = length rowType"
    by (auto simp: convertBatch_def split: if_splits sum.splits option.splits
        dest: updateChildren_length)
  from u l show ?thesis
    by (auto simp: ImportRecordBatch_def split: if_splits)
qed

lemma stageColumns_append:
  "length pre = i \<Longrightarrow> length mid = length cs \<Longrightarrow>
   stageColumns cs i (pre @ mid @ post) =
     (None, pre @ map (\<lambda>p. fst p @ [snd p]) (zip mid cs) @ post)"
proof (induction cs arbitrary: i pre mid)
  case Nil
  then show ?case by simp
next
  case (Cons c cs)
  then obtain m mid' where mid: "mid = m # mid'" by (cases mid) auto
  have nth: "(pre @ m # mid' @ post) ! i = m" using Cons.prems by (simp add: nth_append)
  have upd: "(pre @ m # mid' @ post)[i := m @ [c]] = (pre @ [m @ [c]]) @ mid' @ post"
    using Cons.prems by (simp add: list_update_append)
  have IH: "stageColumns cs (Suc i) ((pre @ [m @ [c]]) @ mid' @ post) =
     (None, (pre @ [m @ [c]]) @ map (\<lambda>p. fst p @ [snd p]) (zip mid' cs) @ post)"
    using Cons.IH [of "pre @ [m @ [c]]" "Suc i" mid'] Cons.prems mid by simp
  show ?case using Cons.prems mid nth upd IH by (simp del: append_assoc)
qed

lemma stageColumns_all:
  "length st = length cs \<Longrightarrow>
   stageColumns cs 0 st = (None, map (\<lambda>p. fst p @ [snd p]) (zip st cs))"
  using stageColumns_append [of "[]" 0 st cs "[]"] by simp

lemma Writer_fresh:
  assumes "Writer D fs options p sch = Inr w"
  shows "\<exists>props. arrowContext w =
            Some \<lparr>writer = None, schema = None, properties = props, stagingRows = 0,
                  stagingBytes = 0, stagingChunks = []\<rparr>"
    and "stream w = ArrowDataBufferSink fs (bufferGrowRatio options)"
    and "sch = Some (writerSchema w)"
    and "validateSchemaRecursive (writerSchema w) = None"
  using assms
  by (auto simp: Writer_def Let_def split: option.splits sum.splits)

lemma write_fresh:
  assumes "arrowContext w = Some ctx" "schema ctx = None" "stagingChunks ctx = []"
    "stagingRows ctx = 0"
  shows "write B E w d =
    (case convertBatch B (writerSchema w) d of
       Inl e \<Rightarrow> (Some e, w)
     | Inr rb \<Rightarrow>
         (None, w\<lparr>arrowContext :=
                   Some (ctx\<lparr>schema := Some (rb_schema rb),
                              stagingChunks := map (\<lambda>c. [c]) (rb_columns rb),
                              stagingRows := word_of_int (vectorSize d),
                              stagingBytes := stagingBytes ctx + estimateFlatSize d\<rparr>)\<rparr>))"
proof (cases "convertBatch B (writerSchema w) d")
  case (Inl e)
  then show ?thesis by (simp add: write_def)
next
  case (Inr rb)
  have len: "length (rb_columns rb) = length (rb_schema rb)"
    using convertBatch_columns [OF Inr] by simp
  have z: "map (\<lambda>p. fst p @ [snd p]) (zip (replicate (length (rb_schema rb)) []) (rb_columns rb))
        = map (\<lambda>c. [c]) (rb_columns rb)"
    using len [symmetric] by (simp add: zip_replicate1 map_replicate_const comp_def)
  have st: "stageColumns (rb_columns rb) 0 (replicate (length (rb_schema rb)) []) =
      (None, map (\<lambda>c. [c]) (rb_columns rb))"
    using stageColumns_all [of "replicate (length (rb_schema rb)) []" "rb_columns rb"] len z
    by simp
  show ?thesis
    using assms Inr st
    by (simp add: write_def initSchema_def flush_def stage_def Let_def)
qed

section \<open>Flush\<close>

text \<open>
  Claim C4. With nothing staged (\<open>stagingRows = 0\<close>) \<^verbatim>\<open>flush\<close> returns at once and the
  writer is unchanged: no encoder, no table. With rows staged, a canonical schema of as
  many fields as there are staged sequences, every fragment typed as its column, and an
  encoder and destination that do not fail, \<^verbatim>\<open>flush\<close> returns normally and the writer
  afterwards is the one before with: the encoder handle (opened now if there was none)
  given one more table, namely \<open>materialize\<close> of exactly the staged sequences with the
  staged row count; the stream holding nothing any more, its former contents and the
  encoder's bytes delivered to the destination in one write; every staged sequence empty;
  both counters zero.
\<close>

theorem flush_all_or_nothing:
  assumes ctx: "arrowContext w = Some ctx"
  shows "(stagingRows ctx = 0 \<longrightarrow> flush E w = (None, w))
   \<and> (0 < stagingRows ctx \<and> schema ctx = Some sch
        \<and> length (stagingChunks ctx) = length sch \<and> well_typed (stagingChunks ctx) sch
        \<and> openWriter E w ctx = Inr (ctx1, st1) \<and> writer ctx1 = Some fw
        \<and> WriteTable E fw (materialize sch (stagingChunks ctx) (stagingRows ctx))
              (rowsInRowGroup (flushPolicy w)) = Inr bytes
        \<and> sink st1 = Some fs \<and> \<not> failing fs
      \<longrightarrow> flush E w =
            (None,
             w\<lparr>arrowContext :=
                 Some (ctx\<lparr>writer :=
                              Some (fw\<lparr>fw_tables := fw_tables fw @
                                     [(materialize sch (stagingChunks ctx) (stagingRows ctx),
                                       rowsInRowGroup (flushPolicy w))]\<rparr>),
                            stagingChunks := replicate (length sch) [],
                            stagingRows := 0, stagingBytes := 0\<rparr>),
               stream := snd (Flush (Write st1 bytes))\<rparr>)
          \<and> sink (snd (Flush (Write st1 bytes))) =
              Some (fs\<lparr>written := written fs @ [buffer st1 @ bytes]\<rparr>)
          \<and> buffer (snd (Flush (Write st1 bytes))) = [])"
proof (intro conjI impI)
  assume "stagingRows ctx = 0"
  then show "flush E w = (None, w)" using ctx by (simp add: flush_def)
next
  assume h: "0 < stagingRows ctx \<and> schema ctx = Some sch
        \<and> length (stagingChunks ctx) = length sch \<and> well_typed (stagingChunks ctx) sch
        \<and> openWriter E w ctx = Inr (ctx1, st1) \<and> writer ctx1 = Some fw
        \<and> WriteTable E fw (materialize sch (stagingChunks ctx) (stagingRows ctx))
              (rowsInRowGroup (flushPolicy w)) = Inr bytes
        \<and> sink st1 = Some fs \<and> \<not> failing fs"
  have c1: "ctx1 = ctx\<lparr>writer := Some fw\<rparr>"
    using h by (auto simp: openWriter_def split: option.splits sum.splits)
  have cc: "collectChunks sch 0 (stagingChunks ctx) =
      (None, replicate (length sch) [], map chunked (zip (stagingChunks ctx) sch))"
    using collectChunks_typed [of "[]" 0 "stagingChunks ctx" sch "[]"] h by simp
  have fl: "Flush (Write st1 bytes) =
      (None, (Write st1 bytes)\<lparr>bytesFlushed := bytesFlushed st1 + of_nat (length (buffer st1 @ bytes)),
                      sink := Some (fs\<lparr>written := written fs @ [buffer st1 @ bytes]\<rparr>),
                      buffer := [], capacity := 0\<rparr>)"
    using Flush_ok [of "Write st1 bytes" fs] h by (simp add: Write_sink_buffer)
  have fs: "flushStaged E w ctx =
            (None,
             w\<lparr>arrowContext :=
                 Some (ctx\<lparr>writer :=
                              Some (fw\<lparr>fw_tables := fw_tables fw @
                                     [(materialize sch (stagingChunks ctx) (stagingRows ctx),
                                       rowsInRowGroup (flushPolicy w))]\<rparr>),
                            stagingChunks := replicate (length sch) [],
                            stagingRows := 0, stagingBytes := 0\<rparr>),
               stream := snd (Flush (Write st1 bytes))\<rparr>)"
    using h by (simp add: flushStaged_def c1 cc fl materialize_def Let_def)
  show "flush E w =
            (None,
             w\<lparr>arrowContext :=
                 Some (ctx\<lparr>writer :=
                              Some (fw\<lparr>fw_tables := fw_tables fw @
                                     [(materialize sch (stagingChunks ctx) (stagingRows ctx),
                                       rowsInRowGroup (flushPolicy w))]\<rparr>),
                            stagingChunks := replicate (length sch) [],
                            stagingRows := 0, stagingBytes := 0\<rparr>),
               stream := snd (Flush (Write st1 bytes))\<rparr>)"
    using ctx h fs by (simp add: flush_def)
  show "sink (snd (Flush (Write st1 bytes))) =
              Some (fs\<lparr>written := written fs @ [buffer st1 @ bytes]\<rparr>)"
    by (simp add: fl)
  show "buffer (snd (Flush (Write st1 bytes))) = []"
    by (simp add: fl)
qed

theorem flush_all_or_nothing_witness:
  "flush demo_encoder demo_writer = (None, demo_writer)
   \<and> fst (flush demo_encoder demo_staged_writer) = None
   \<and> arrowContext (snd (flush demo_encoder demo_staged_writer)) =
       Some \<lparr>writer =
               Some \<lparr>fw_schema = demo_fields, fw_properties = demo_properties,
                     fw_int96 = False,
                     fw_tables =
                       [(materialize demo_fields (map (\<lambda>c. [c]) (demo_arrays 0)) 600, 1000)]\<rparr>,
             schema = Some demo_fields, properties = demo_properties,
             stagingRows = 0, stagingBytes = 0, stagingChunks = [[], []]\<rparr>
   \<and> sink (stream (snd (flush demo_encoder demo_staged_writer))) =
       Some \<lparr>written = [[80, 65, 82, 49, 1]], isClosed = False, failing = False\<rparr>
   \<and> buffer (stream (snd (flush demo_encoder demo_staged_writer))) = []"
proof -
  have c0: "arrowContext demo_writer = Some demo_context"
    by (simp add: demo_writer_def)
  have z: "stagingRows demo_context = 0"
    by (simp add: demo_context_def)
  have c1: "arrowContext demo_staged_writer = Some demo_staged_context"
    by (simp add: demo_staged_writer_def)
  have h: "0 < stagingRows demo_staged_context \<and> schema demo_staged_context = Some demo_fields
        \<and> length (stagingChunks demo_staged_context) = length demo_fields
        \<and> well_typed (stagingChunks demo_staged_context) demo_fields
        \<and> openWriter demo_encoder demo_staged_writer demo_staged_context =
            Inr (demo_staged_context\<lparr>writer :=
                   Some \<lparr>fw_schema = demo_fields, fw_properties = demo_properties,
                         fw_int96 = False, fw_tables = []\<rparr>\<rparr>,
                 Write (stream demo_staged_writer) [80, 65, 82, 49])
        \<and> writer (demo_staged_context\<lparr>writer :=
                   Some \<lparr>fw_schema = demo_fields, fw_properties = demo_properties,
                         fw_int96 = False, fw_tables = []\<rparr>\<rparr>) =
            Some \<lparr>fw_schema = demo_fields, fw_properties = demo_properties,
                         fw_int96 = False, fw_tables = []\<rparr>
        \<and> WriteTable demo_encoder
              \<lparr>fw_schema = demo_fields, fw_properties = demo_properties,
                         fw_int96 = False, fw_tables = []\<rparr>
              (materialize demo_fields (stagingChunks demo_staged_context)
                 (stagingRows demo_staged_context))
              (rowsInRowGroup (flushPolicy demo_staged_writer)) = Inr [1]
        \<and> sink (Write (stream demo_staged_writer) [80, 65, 82, 49]) = Some demo_sink
        \<and> \<not> failing demo_sink"
    by (simp add: demo_staged_context_def demo_fields_def demo_arrays_def well_typed_def
        openWriter_def demo_staged_writer_def demo_writer_def demo_encoder_def
        Write_sink_buffer ArrowDataBufferSink_def demo_sink_def DefaultFlushPolicy_def)
  have b: "buffer (Write (stream demo_staged_writer) [80, 65, 82, 49]) = [80, 65, 82, 49]"
    by (simp add: Write_sink_buffer demo_staged_writer_def demo_writer_def
        ArrowDataBufferSink_def)
  have r: "rowsInRowGroup (flushPolicy demo_staged_writer) = 1000"
    by (simp add: demo_staged_writer_def demo_writer_def DefaultFlushPolicy_def)
  note A = flush_all_or_nothing [OF c0, of demo_encoder, THEN conjunct1, rule_format, OF z]
  note B = flush_all_or_nothing [OF c1, THEN conjunct2, rule_format, OF h]
  show ?thesis
    using A B b r
    by (simp add: demo_staged_context_def demo_sink_def demo_fields_def)
qed

section \<open>Close with nothing written\<close>

text \<open>
  Claim C8. On a writer as the constructor yields it, and a destination that does not
  fail, \<^verbatim>\<open>close\<close> returns normally for every encoder library: the encoder handle is
  absent before and after, the context is unchanged, and the destination has received
  one empty buffer and is closed, so not a byte of a footer. A \<^verbatim>\<open>write\<close> on such a
  writer that fails leaves it as it was, so the same holds after any number of failed
  writes.
\<close>

theorem close_without_rows:
  assumes W: "Writer D fs options p sch = Inr w" and nf: "\<not> failing fs"
  shows "fst (close E w) = None
   \<and> arrowContext (snd (close E w)) = arrowContext w
   \<and> map_option writer (arrowContext w) = Some None
   \<and> sink (stream (snd (close E w))) =
       Some (fs\<lparr>written := written fs @ [[]], isClosed := True\<rparr>)
   \<and> (\<forall>B d. fst (write B E w d) \<noteq> None \<longrightarrow> snd (write B E w d) = w)"
proof -
  from Writer_fresh [OF W] obtain props where
    ctx: "arrowContext w =
            Some \<lparr>writer = None, schema = None, properties = props, stagingRows = 0,
                  stagingBytes = 0, stagingChunks = []\<rparr>"
    and st: "stream w = ArrowDataBufferSink fs (bufferGrowRatio options)"
    by blast
  have fl: "flush E w = (None, w)" using ctx by (simp add: flush_def)
  have cl: "Close (stream w) =
      (None, (stream w)\<lparr>bytesFlushed := bytesFlushed (stream w) + of_nat (length (buffer (stream w))),
                      sink := Some (fs\<lparr>written := written fs @ [buffer (stream w)], isClosed := True\<rparr>),
                      buffer := [], capacity := 0\<rparr>)"
    using Close_ok [of "stream w" fs] nf st by (simp add: ArrowDataBufferSink_def)
  have b: "buffer (stream w) = []" using st by (simp add: ArrowDataBufferSink_def)
  have c: "close E w =
      (None, w\<lparr>stream := (stream w)\<lparr>bytesFlushed := bytesFlushed (stream w) + of_nat (length (buffer (stream w))),
                      sink := Some (fs\<lparr>written := written fs @ [buffer (stream w)], isClosed := True\<rparr>),
                      buffer := [], capacity := 0\<rparr>,
               arrowContext := map_option (\<lambda>c. c\<lparr>stagingChunks := []\<rparr>) (arrowContext w)\<rparr>)"
    using ctx by (simp add: close_def fl cl)
  have w: "\<forall>B d. fst (write B E w d) \<noteq> None \<longrightarrow> snd (write B E w d) = w"
  proof (intro allI impI)
    fix B d
    assume "fst (write B E w d) \<noteq> None"
    then show "snd (write B E w d) = w"
      using write_fresh [of w _ B E d, OF ctx]
      by (cases "convertBatch B (writerSchema w) d") simp_all
  qed
  show ?thesis using c ctx b w by simp
qed

theorem close_without_rows_witness:
  "fst (close demo_encoder demo_writer) = None
   \<and> arrowContext (snd (close demo_encoder demo_writer)) = Some demo_context
   \<and> writer demo_context = None
   \<and> sink (stream (snd (close demo_encoder demo_writer))) =
       Some \<lparr>written = [[]], isClosed = True, failing = False\<rparr>
   \<and> write demo_bridge demo_encoder demo_writer demo_renamed_batch =
       (Some (UserError ''The file schema type should be equal with the input rowvector type.''),
        demo_writer)"
proof -
  have W: "Writer demo_defaults demo_sink demo_options demo_pool (Some demo_schema) = Inr demo_writer"
    by (simp add: Writer_def demo_defaults_def demo_options_def demo_pool_def demo_schema_def
        demo_writer_def demo_context_def demo_properties_def
        getArrowParquetWriterOptions_def setMemoryReclaimers_def DefaultFlushPolicy_def)
  have nf: "\<not> failing demo_sink" by (simp add: demo_sink_def)
  have wr: "write demo_bridge demo_encoder demo_writer demo_renamed_batch =
       (Some (UserError ''The file schema type should be equal with the input rowvector type.''),
        demo_writer)"
    by (simp add: write_def convertBatch_def equivalent_def demo_renamed_batch_def
        demo_writer_def demo_schema_def)
  show ?thesis
    using close_without_rows [OF W nf, of demo_encoder] wr
    by (simp add: demo_writer_def demo_context_def demo_sink_def)
qed

section \<open>The writer refines the accumulator\<close>

lemma columnsOf_Nil: "columnsOf n [] = replicate n []"
  by (simp add: columnsOf_def list_eq_iff_nth_eq)

lemma length_columnsOf: "length (columnsOf n bs) = n"
  by (simp add: columnsOf_def)

lemma columnsOf_lengths: "c \<in> set (columnsOf n bs) \<Longrightarrow> length c = length bs"
  by (auto simp: columnsOf_def)

lemma columnsOf_snoc:
  "length (fst b) = n \<Longrightarrow>
   map (\<lambda>p. fst p @ [snd p]) (zip (columnsOf n cur) (fst b)) = columnsOf n (cur @ [b])"
  by (simp add: columnsOf_def list_eq_iff_nth_eq)

lemma rowsOf_simps:
  "rowsOf [] = 0" "rowsOf (cur @ [b]) = rowsOf cur + word_of_int (fst (snd b))"
  "bytesOf [] = 0" "bytesOf (cur @ [b]) = bytesOf cur + snd (snd b)"
  by (simp_all add: rowsOf_def bytesOf_def)

lemma collectChunks_well_typed:
  "collectChunks sch i (pre @ mid @ post) = (None, st', cs) \<Longrightarrow>
   length pre = i \<Longrightarrow> length mid = length sch \<Longrightarrow> well_typed mid sch"
proof (induction sch arbitrary: i pre mid st' cs)
  case Nil
  then show ?case by (simp add: well_typed_def)
next
  case (Cons f sch)
  then obtain m mid' where mid: "mid = m # mid'" by (cases mid) auto
  have nth: "(pre @ m # mid' @ post) ! i = m" using Cons.prems by (simp add: nth_append)
  have upd: "(pre @ m # mid' @ post)[i := []] = (pre @ [[]]) @ mid' @ post"
    using Cons.prems by (simp add: list_update_append)
  have ty: "list_all (\<lambda>a. array_type a = field_type f) m"
    using Cons.prems(1) Cons.prems(2) mid nth
    by (auto simp: ChunkedArray_Make_def split: if_splits option.splits prod.splits)
  obtain st2 cs2 where rec: "collectChunks sch (Suc i) ((pre @ [[]]) @ mid' @ post) = (None, st2, cs2)"
    using Cons.prems(1) Cons.prems(2) mid nth upd ty
    by (auto simp: ChunkedArray_Make_def split: if_splits option.splits prod.splits
        simp del: append_assoc)
  have "well_typed mid' sch"
    using Cons.IH [OF rec] Cons.prems mid by simp
  then show ?case using ty mid by (simp add: well_typed_def)
qed

lemma openWriter_success:
  assumes "openWriter E w ctx = Inr (ctx1, st1)"
  shows "\<exists>fw. ctx1 = ctx\<lparr>writer := Some fw\<rparr> \<and> map fst (fw_tables fw) = tablesWritten ctx"
proof (cases "writer ctx")
  case None
  then show ?thesis using assms
    by (auto simp: openWriter_def tablesWritten_def split: option.splits sum.splits)
next
  case (Some fw0)
  then have "ctx1 = ctx" using assms by (simp add: openWriter_def)
  then have "ctx1 = ctx\<lparr>writer := Some fw0\<rparr>" using Some by simp
  then show ?thesis using Some by (auto simp: tablesWritten_def)
qed

lemma flushStaged_success:
  assumes ok: "flushStaged E w ctx = (None, w')"
    and sch: "schema ctx = Some sch"
    and len: "length (stagingChunks ctx) = length sch"
  shows "\<exists>ctx'. arrowContext w' = Some ctx'
          \<and> schema ctx' = Some sch
          \<and> stagingChunks ctx' = replicate (length sch) []
          \<and> stagingRows ctx' = 0 \<and> stagingBytes ctx' = 0
          \<and> tablesWritten ctx' =
              tablesWritten ctx @ [materialize sch (stagingChunks ctx) (stagingRows ctx)]"
    and "writerSchema w' = writerSchema w" and "flushPolicy w' = flushPolicy w"
proof -
  from ok obtain ctx1 st1 where ow: "openWriter E w ctx = Inr (ctx1, st1)"
    by (auto simp: flushStaged_def split: sum.splits)
  from openWriter_success [OF ow] obtain fw where
    c1: "ctx1 = ctx\<lparr>writer := Some fw\<rparr>" and tw: "map fst (fw_tables fw) = tablesWritten ctx"
    by blast
  have s1: "schema ctx1 = Some sch" using c1 sch by simp
  obtain r st2 cs where cc: "collectChunks sch 0 (stagingChunks ctx) = (r, st2, cs)"
    by (cases "collectChunks sch 0 (stagingChunks ctx)")
  have r: "r = None"
    using ok ow s1 cc c1 by (cases r) (simp_all add: flushStaged_def)
  have wt: "well_typed (stagingChunks ctx) sch"
    using collectChunks_well_typed [of sch 0 "[]" "stagingChunks ctx" "[]" st2 cs] cc r len
    by simp
  have cc': "collectChunks sch 0 (stagingChunks ctx) =
      (None, replicate (length sch) [], map chunked (zip (stagingChunks ctx) sch))"
    using collectChunks_typed [of "[]" 0 "stagingChunks ctx" sch "[]"] len wt by simp
  let ?tbl = "materialize sch (stagingChunks ctx) (stagingRows ctx)"
  from ok ow s1 c1 cc' obtain bytes where
    wtb: "WriteTable E fw ?tbl (rowsInRowGroup (flushPolicy w)) = Inr bytes"
    by (cases "WriteTable E fw ?tbl (rowsInRowGroup (flushPolicy w))")
       (simp_all add: flushStaged_def materialize_def Let_def)
  obtain r3 st3 where fl: "Flush (Write st1 bytes) = (r3, st3)"
    by (cases "Flush (Write st1 bytes)")
  have r3: "r3 = None"
    using ok ow s1 c1 cc' wtb fl
    by (cases r3) (simp_all add: flushStaged_def materialize_def Let_def)
  have w': "w' = w\<lparr>arrowContext :=
                 Some (ctx\<lparr>writer :=
                              Some (fw\<lparr>fw_tables := fw_tables fw @
                                     [(?tbl, rowsInRowGroup (flushPolicy w))]\<rparr>),
                            stagingChunks := replicate (length sch) [],
                            stagingRows := 0, stagingBytes := 0\<rparr>),
               stream := st3\<rparr>"
    using ok ow s1 c1 cc' wtb fl r3
    by (simp add: flushStaged_def materialize_def Let_def)
  show "\<exists>ctx'. arrowContext w' = Some ctx'
          \<and> schema ctx' = Some sch
          \<and> stagingChunks ctx' = replicate (length sch) []
          \<and> stagingRows ctx' = 0 \<and> stagingBytes ctx' = 0
          \<and> tablesWritten ctx' =
              tablesWritten ctx @ [materialize sch (stagingChunks ctx) (stagingRows ctx)]"
    using w' sch tw by (simp add: tablesWritten_def)
  show "writerSchema w' = writerSchema w" using w' by simp
  show "flushPolicy w' = flushPolicy w" using w' by simp
qed

lemma flush_inv:
  assumes inv: "staging_inv w groups cur" and ok: "flush E w = (None, w')"
  shows "staging_inv w' (if 0 < rowsOf cur then groups @ [cur] else groups)
           (if 0 < rowsOf cur then [] else cur)
         \<and> writerSchema w' = writerSchema w \<and> flushPolicy w' = flushPolicy w
         \<and> map_option schema (arrowContext w') = map_option schema (arrowContext w)"
proof -
  from inv obtain ctx where ctx: "arrowContext w = Some ctx"
    by (auto simp: staging_inv_def split: option.splits)
  have rows: "stagingRows ctx = rowsOf cur" "stagingBytes ctx = bytesOf cur"
    using inv ctx by (simp_all add: staging_inv_def)
  show ?thesis
  proof (cases "0 < rowsOf cur")
    case False
    then have "w' = w" using ok ctx rows by (simp add: flush_def)
    then show ?thesis using inv False by simp
  next
    case True
    then have fs: "flushStaged E w ctx = (None, w')"
      using ok ctx rows by (simp add: flush_def)
    have "cur \<noteq> []" using True by (auto simp: rowsOf_simps)
    then obtain sch where sch: "schema ctx = Some sch"
      using inv ctx by (cases "schema ctx") (simp_all add: staging_inv_def)
    have facts: "length sch = length (writerSchema w)"
      "stagingChunks ctx = columnsOf (length sch) cur"
      "tablesWritten ctx = map (tableOf sch) groups"
      "list_all (\<lambda>b. length (fst b) = length (writerSchema w)) (concat groups @ cur)"
      using inv ctx sch by (simp_all add: staging_inv_def)
    have len: "length (stagingChunks ctx) = length sch"
      using facts by (simp add: length_columnsOf)
    from flushStaged_success [OF fs sch len] obtain ctx' where
      c': "arrowContext w' = Some ctx'" "schema ctx' = Some sch"
        "stagingChunks ctx' = replicate (length sch) []"
        "stagingRows ctx' = 0" "stagingBytes ctx' = 0"
        "tablesWritten ctx' =
              tablesWritten ctx @ [materialize sch (stagingChunks ctx) (stagingRows ctx)]"
      and ws: "writerSchema w' = writerSchema w" and fp: "flushPolicy w' = flushPolicy w"
      by blast
    have "staging_inv w' (groups @ [cur]) []"
      using c' ws facts rows
      by (simp add: staging_inv_def rowsOf_simps columnsOf_Nil tableOf_def)
    then show ?thesis using True ws fp c' ctx sch by simp
  qed
qed

lemma stage_inv:
  assumes inv: "staging_inv w groups cur"
    and ctx: "arrowContext w = Some ctx" and sch: "schema ctx = Some sch"
    and len: "length (rb_columns rb) = length (writerSchema w)"
  shows "\<exists>w'. stage rb n b w = (None, w')
          \<and> staging_inv w' groups (cur @ [(rb_columns rb, n, b)])
          \<and> writerSchema w' = writerSchema w \<and> flushPolicy w' = flushPolicy w"
proof -
  have facts: "length sch = length (writerSchema w)"
      "stagingChunks ctx = columnsOf (length sch) cur"
      "tablesWritten ctx = map (tableOf sch) groups"
      "stagingRows ctx = rowsOf cur" "stagingBytes ctx = bytesOf cur"
      "list_all (\<lambda>b. length (fst b) = length (writerSchema w)) (concat groups @ cur)"
    using inv ctx sch by (simp_all add: staging_inv_def)
  have l: "length (stagingChunks ctx) = length (rb_columns rb)"
    using facts len by (simp add: length_columnsOf)
  have st: "stageColumns (rb_columns rb) 0 (stagingChunks ctx) =
      (None, columnsOf (length sch) (cur @ [(rb_columns rb, n, b)]))"
    using stageColumns_all [OF l] facts len
      columnsOf_snoc [of "(rb_columns rb, n, b)" "length sch" cur]
    by simp
  let ?w' = "w\<lparr>arrowContext :=
                    Some (ctx\<lparr>stagingChunks := columnsOf (length sch) (cur @ [(rb_columns rb, n, b)]),
                               stagingRows := stagingRows ctx + word_of_int n,
                               stagingBytes := stagingBytes ctx + b\<rparr>)\<rparr>"
  have s: "stage rb n b w = (None, ?w')"
    using ctx st by (simp add: stage_def)
  have i: "staging_inv ?w' groups (cur @ [(rb_columns rb, n, b)])"
    using facts sch len by (simp add: staging_inv_def rowsOf_simps tablesWritten_def)
  show ?thesis using s i by simp
qed

lemma initSchema_inv:
  assumes inv: "staging_inv w groups cur" and ctx: "arrowContext w = Some ctx"
    and cb: "convertBatch B (writerSchema w) d = Inr rb"
  shows "staging_inv (w\<lparr>arrowContext := Some (initSchema rb ctx)\<rparr>) groups cur"
    and "\<exists>sch. schema (initSchema rb ctx) = Some sch"
    and "stagingRows (initSchema rb ctx) = rowsOf cur"
    and "stagingBytes (initSchema rb ctx) = bytesOf cur"
proof -
  have l: "length (rb_schema rb) = length (writerSchema w)"
    using convertBatch_columns [OF cb] by simp
  show "staging_inv (w\<lparr>arrowContext := Some (initSchema rb ctx)\<rparr>) groups cur"
    using inv ctx l
    by (cases "schema ctx")
       (simp_all add: staging_inv_def initSchema_def columnsOf_Nil tablesWritten_def)
  show "\<exists>sch. schema (initSchema rb ctx) = Some sch"
    by (cases "schema ctx") (simp_all add: initSchema_def)
  show "stagingRows (initSchema rb ctx) = rowsOf cur"
    using inv ctx by (simp add: staging_inv_def initSchema_def)
  show "stagingBytes (initSchema rb ctx) = bytesOf cur"
    using inv ctx by (simp add: staging_inv_def initSchema_def)
qed

lemma write_inv:
  assumes inv: "staging_inv w groups cur" and ok: "write B E w d = (None, w')"
  shows "staging_inv w'
           (fst (accumulate (flushPolicy w) (groups, cur) [Some (stagedOf B (writerSchema w) d)]))
           (snd (accumulate (flushPolicy w) (groups, cur) [Some (stagedOf B (writerSchema w) d)]))
         \<and> writerSchema w' = writerSchema w \<and> flushPolicy w' = flushPolicy w"
proof -
  from inv obtain ctx where ctx: "arrowContext w = Some ctx"
    by (auto simp: staging_inv_def split: option.splits)
  from ok obtain rb where cb: "convertBatch B (writerSchema w) d = Inr rb"
    by (cases "convertBatch B (writerSchema w) d") (simp_all add: write_def)
  let ?b = "(rb_columns rb, vectorSize d, estimateFlatSize d)"
  have b: "stagedOf B (writerSchema w) d = ?b" by (simp add: stagedOf_def cb)
  let ?w1 = "w\<lparr>arrowContext := Some (initSchema rb ctx)\<rparr>"
  note i1 = initSchema_inv [OF inv ctx cb]
  have len: "length (rb_columns rb) = length (writerSchema w)"
    using convertBatch_columns [OF cb] by simp
  have wr: "write B E w d =
      (case (if shouldFlush (flushPolicy w) (rowsOf cur) (bytesOf cur)
             then flush E ?w1 else (None, ?w1)) of
         (Some e, w2) \<Rightarrow> (Some e, w2)
       | (None, w2) \<Rightarrow> stage rb (vectorSize d) (estimateFlatSize d) w2)"
    using ctx cb i1(3) i1(4) by (simp add: write_def Let_def)
  show ?thesis
  proof (cases "shouldFlush (flushPolicy w) (rowsOf cur) (bytesOf cur)")
    case False
    from i1(2) obtain sch where sch: "schema (initSchema rb ctx) = Some sch" by blast
    from stage_inv [OF i1(1) _ sch, of rb "vectorSize d" "estimateFlatSize d"] len
    obtain w'' where "stage rb (vectorSize d) (estimateFlatSize d) ?w1 = (None, w'')"
      "staging_inv w'' groups (cur @ [?b])" "writerSchema w'' = writerSchema w"
      "flushPolicy w'' = flushPolicy w"
      by auto
    then show ?thesis using wr ok False b by simp
  next
    case True
    obtain r w2 where fl: "flush E ?w1 = (r, w2)" by (cases "flush E ?w1")
    have r: "r = None" using wr ok True fl by (cases r) simp_all
    note f = flush_inv [OF i1(1) fl [unfolded r]]
    from i1(2) f obtain ctx2 sch where c2: "arrowContext w2 = Some ctx2" "schema ctx2 = Some sch"
      by auto
    have len2: "length (rb_columns rb) = length (writerSchema w2)" using len f by simp
    from stage_inv [OF f [THEN conjunct1] c2 len2, of "vectorSize d" "estimateFlatSize d"]
    obtain w'' where s: "stage rb (vectorSize d) (estimateFlatSize d) w2 = (None, w'')"
      "staging_inv w'' (if 0 < rowsOf cur then groups @ [cur] else groups)
          ((if 0 < rowsOf cur then [] else cur) @ [?b])"
      "writerSchema w'' = writerSchema w2" "flushPolicy w'' = flushPolicy w2"
      by auto
    have "w' = w''" using wr ok True fl r s by simp
    then show ?thesis using s f True b by (cases "0 < rowsOf cur") simp_all
  qed
qed

lemma accumulate_Nil: "accumulate P s [] = s"
  by (cases s) simp

lemma accumulate_Cons:
  "accumulate P s (op # ops) = accumulate P (accumulate P s [op]) ops"
  by (cases s; cases op) simp_all

lemma run_inv:
  assumes "staging_inv w groups cur" and "list_all staging_op ops"
    and "writer_run B E ops w = (None, w')"
  shows "staging_inv w'
           (fst (accumulate (flushPolicy w) (groups, cur) (map (abstractOp B (writerSchema w)) ops)))
           (snd (accumulate (flushPolicy w) (groups, cur) (map (abstractOp B (writerSchema w)) ops)))
         \<and> writerSchema w' = writerSchema w \<and> flushPolicy w' = flushPolicy w"
  using assms
proof (induction ops arbitrary: w groups cur)
  case Nil
  then show ?case by simp
next
  case (Cons op ops)
  let ?f = "abstractOp B (writerSchema w)"
  let ?P = "flushPolicy w"
  let ?s1 = "accumulate ?P (groups, cur) [?f op]"
  obtain r w1 where st: "writer_step B E op w = (r, w1)" by (cases "writer_step B E op w")
  have r: "r = None" using Cons.prems(3) st by (cases r) simp_all
  have run: "writer_run B E ops w1 = (None, w')" using Cons.prems(3) st r by simp
  have rest: "list_all staging_op ops" using Cons.prems(2) by simp
  have acc: "accumulate ?P (groups, cur) (map ?f (op # ops)) =
             accumulate ?P (fst ?s1, snd ?s1) (map ?f ops)"
    using accumulate_Cons [of ?P "(groups, cur)" "?f op" "map ?f ops"] by simp
  have step: "staging_inv w1 (fst ?s1) (snd ?s1)
              \<and> writerSchema w1 = writerSchema w \<and> flushPolicy w1 = flushPolicy w"
  proof (cases op)
    case (DoWrite d)
    then have "write B E w d = (None, w1)" using st r by simp
    from write_inv [OF Cons.prems(1) this] DoWrite show ?thesis by simp
  next
    case DoFlush
    then have "flush E w = (None, w1)" using st r by simp
    from flush_inv [OF Cons.prems(1) this] DoFlush show ?thesis
      by (cases "0 < rowsOf cur") simp_all
  next
    case DoClose
    then show ?thesis using Cons.prems(2) by simp
  next
    case DoAbort
    then show ?thesis using Cons.prems(2) by simp
  qed
  from Cons.IH [OF step [THEN conjunct1] rest run] step
  show ?case unfolding acc by simp
qed

lemma accumulate_concat:
  "concat (fst (accumulate P s ops)) @ snd (accumulate P s ops) =
   concat (fst s) @ snd s @ List.map_filter id ops"
proof (induction ops arbitrary: s)
  case Nil
  then show ?case by (simp add: accumulate_Nil List.map_filter_simps)
next
  case (Cons op ops)
  obtain g c where s: "s = (g, c)" by (cases s)
  show ?case
  proof (cases op)
    case None
    then show ?thesis using s Cons.IH [of "if 0 < rowsOf c then (g @ [c], []) else (g, c)"]
      by (simp add: List.map_filter_simps)
  next
    case (Some b)
    then show ?thesis
      using s Cons.IH [of "if shouldFlush P (rowsOf c) (bytesOf c) \<and> 0 < rowsOf c
                           then (g @ [c], [b]) else (g, c @ [b])"]
      by (simp add: List.map_filter_simps)
  qed
qed

lemma accumulate_policy:
  "list_all (one_batch_over P) (fst s) \<Longrightarrow> snd s = [] \<or> one_batch_over P (snd s) \<Longrightarrow>
   list_all (one_batch_over P) (fst (accumulate P s ops))
   \<and> (snd (accumulate P s ops) = [] \<or> one_batch_over P (snd (accumulate P s ops)))"
proof (induction ops arbitrary: s)
  case Nil
  then show ?case by (simp add: accumulate_Nil)
next
  case (Cons op ops)
  obtain g c where s: "s = (g, c)" by (cases s)
  have nz: "0 < rowsOf c \<Longrightarrow> c \<noteq> []" by (auto simp: rowsOf_simps)
  show ?case
  proof (cases op)
    case None
    let ?s' = "if 0 < rowsOf c then (g @ [c], []) else (g, c)"
    have "list_all (one_batch_over P) (fst ?s')" "snd ?s' = [] \<or> one_batch_over P (snd ?s')"
      using Cons.prems s nz by auto
    from Cons.IH [OF this] show ?thesis using None s by simp
  next
    case (Some b)
    let ?s' = "if shouldFlush P (rowsOf c) (bytesOf c) \<and> 0 < rowsOf c
               then (g @ [c], [b]) else (g, c @ [b])"
    have 1: "list_all (one_batch_over P) (fst ?s')"
      using Cons.prems s nz by auto
    have 2: "snd ?s' = [] \<or> one_batch_over P (snd ?s')"
      by (auto simp: one_batch_over_def rowsOf_simps word_gt_0)
    from Cons.IH [OF 1 2] show ?thesis using Some s by simp
  qed
qed

lemma Writer_staging_inv:
  assumes "Writer D fs options p sch = Inr w"
  shows "staging_inv w [] []"
  using Writer_fresh(1) [OF assms]
  by (auto simp: staging_inv_def rowsOf_simps)

text \<open>Evaluation on the concrete environment.\<close>

lemmas demo_defs =
  demo_bridge_def demo_encoder_def demo_sink_def demo_writer_def demo_context_def
  demo_properties_def demo_schema_def demo_batch_def demo_flat_child_def demo_fields_def
  demo_arrays_def demo_pool_def

lemmas step_defs =
  write_def convertBatch_def equivalent_def needFlatten_def ImportSchema_def
  ImportRecordBatch_def WithName_def WithType_def initSchema_def flush_def flushStaged_def
  openWriter_def ChunkedArray_Make_def Table_Make_def Write_def append_def reserve_def
  Flush_def Close_def sink_write_def sink_close_def stage_def DefaultFlushPolicy_def
  ArrowDataBufferSink_def close_def Let_def

lemma staged_demo:
  "stagedOf demo_bridge demo_schema (demo_batch n d) = (demo_arrays d, n, 4800)"
  by (simp add: stagedOf_def demo_defs step_defs)

lemma demo_Writer:
  "Writer demo_defaults demo_sink demo_options demo_pool (Some demo_schema) = Inr demo_writer"
  by (simp add: Writer_def demo_defaults_def demo_options_def demo_pool_def demo_schema_def
      demo_writer_def demo_context_def demo_properties_def
      getArrowParquetWriterOptions_def setMemoryReclaimers_def DefaultFlushPolicy_def)

section \<open>Row groups are made of whole batches\<close>

text \<open>
  Claim C3. Take a writer as the constructor yields it and any batches whose writes all
  return normally. Then the writer holds what the accumulator of the specification holds
  after the same batches (\<open>staging_inv\<close>): the tables given to the encoder are the
  accumulator's groups, each table being the columns of whole batches with their rows
  summed, and the staged sequences and counters are those of the batches staged since.
  The accumulator consults the policy on the counters as they are before the incoming
  batch and only then stages it, so: the groups and the staged batches, put end to end,
  are the batches written, in order, none split or dropped; and every group, without its
  last batch, either had no rows or did not make the policy ask for a flush, which is how
  far a row group can exceed the thresholds.
\<close>

theorem batches_never_split:
  assumes W: "Writer D fs options p sch = Inr w0"
    and run: "writer_run B E (map DoWrite ds) w0 = (None, w)"
  shows "staging_inv w (fst (accumulated B w0 ds)) (snd (accumulated B w0 ds))
     \<and> concat (fst (accumulated B w0 ds)) @ snd (accumulated B w0 ds) =
         map (stagedOf B (writerSchema w0)) ds
     \<and> list_all (one_batch_over (flushPolicy w0)) (fst (accumulated B w0 ds))"
proof -
  have ops: "list_all staging_op (map DoWrite ds)" by (simp add: list_all_iff)
  have m: "map (abstractOp B (writerSchema w0)) (map DoWrite ds) =
           map (\<lambda>d. Some (stagedOf B (writerSchema w0) d)) ds"
    by simp
  have mf: "List.map_filter id (map (\<lambda>d. Some (stagedOf B (writerSchema w0) d)) ds) =
            map (stagedOf B (writerSchema w0)) ds"
    by (induction ds) (simp_all add: List.map_filter_simps)
  from run_inv [OF Writer_staging_inv [OF W] ops run]
  have 1: "staging_inv w (fst (accumulated B w0 ds)) (snd (accumulated B w0 ds))"
    by (simp add: accumulated_def m del: map_map)
  have 2: "concat (fst (accumulated B w0 ds)) @ snd (accumulated B w0 ds) =
         map (stagedOf B (writerSchema w0)) ds"
    using accumulate_concat [of "flushPolicy w0" "([], [])"
        "map (\<lambda>d. Some (stagedOf B (writerSchema w0) d)) ds"]
    by (simp add: accumulated_def mf)
  have 3: "list_all (one_batch_over (flushPolicy w0)) (fst (accumulated B w0 ds))"
    using accumulate_policy [of "flushPolicy w0" "([], [])"
        "map (\<lambda>d. Some (stagedOf B (writerSchema w0) d)) ds"]
    by (simp add: accumulated_def)
  show ?thesis using 1 2 3 by simp
qed

theorem batches_never_split_witness:
  "fst (writer_run demo_bridge demo_encoder
          (map DoWrite [demo_batch 600 0, demo_batch 600 10, demo_batch 600 20]) demo_writer) = None
   \<and> accumulated demo_bridge demo_writer [demo_batch 600 0, demo_batch 600 10, demo_batch 600 20] =
       ([[(demo_arrays 0, 600, 4800), (demo_arrays 10, 600, 4800)]], [(demo_arrays 20, 600, 4800)])
   \<and> staging_inv
         (snd (writer_run demo_bridge demo_encoder
                 (map DoWrite [demo_batch 600 0, demo_batch 600 10, demo_batch 600 20]) demo_writer))
         [[(demo_arrays 0, 600, 4800), (demo_arrays 10, 600, 4800)]] [(demo_arrays 20, 600, 4800)]
   \<and> rowsOf [(demo_arrays 0, 600, 4800), (demo_arrays 10, 600, 4800)] = 1200
   \<and> rowsInRowGroup (flushPolicy demo_writer) = 1000
   \<and> one_batch_over (flushPolicy demo_writer)
         [(demo_arrays 0, 600, 4800), (demo_arrays 10, 600, 4800)]
   \<and> map_option (map table_num_rows \<circ> tablesWritten)
         (arrowContext
            (snd (writer_run demo_bridge demo_encoder
                    (map DoWrite [demo_batch 600 0, demo_batch 600 10, demo_batch 600 20])
                    demo_writer))) = Some [1200]"
proof -
  let ?ds = "[demo_batch 600 0, demo_batch 600 10, demo_batch 600 20]"
  let ?run = "writer_run demo_bridge demo_encoder (map DoWrite ?ds) demo_writer"
  have ok: "fst ?run = None"
    by (simp add: demo_defs step_defs)
  then have run: "?run = (None, snd ?run)"
    by (metis prod.collapse)
  have ws: "writerSchema demo_writer = demo_schema"
    by (simp add: demo_writer_def)
  have acc: "accumulated demo_bridge demo_writer ?ds =
       ([[(demo_arrays 0, 600, 4800), (demo_arrays 10, 600, 4800)]], [(demo_arrays 20, 600, 4800)])"
    by (simp add: accumulated_def ws staged_demo rowsOf_def bytesOf_def)
       (simp add: demo_writer_def DefaultFlushPolicy_def)
  have rows: "rowsOf [(demo_arrays 0, 600, 4800), (demo_arrays 10, 600, 4800)] = 1200"
    by (simp add: rowsOf_def)
  have pol: "rowsInRowGroup (flushPolicy demo_writer) = 1000"
    by (simp add: demo_writer_def DefaultFlushPolicy_def)
  have tabs: "map_option (map table_num_rows \<circ> tablesWritten) (arrowContext (snd ?run)) =
      Some [1200]"
    by (simp add: demo_defs step_defs tablesWritten_def)
  note T = batches_never_split [OF demo_Writer run]
  have inv: "staging_inv (snd ?run)
         [[(demo_arrays 0, 600, 4800), (demo_arrays 10, 600, 4800)]] [(demo_arrays 20, 600, 4800)]"
    using T [THEN conjunct1] unfolding acc by simp
  have ob: "one_batch_over (flushPolicy demo_writer)
         [(demo_arrays 0, 600, 4800), (demo_arrays 10, 600, 4800)]"
    using T [THEN conjunct2, THEN conjunct2] unfolding acc by simp
  show ?thesis
    by (intro conjI ok acc inv rows pol ob tabs)
qed

section \<open>The staged sequences stay aligned\<close>

text \<open>
  Claim C10, as the code has it. Take a writer as the constructor yields it and any
  sequence of \<^verbatim>\<open>write\<close> and \<^verbatim>\<open>flush\<close> calls that all return normally. Then, as long as no
  canonical schema is set, no batch has been written and there is no staged sequence;
  once it is set, there are as many staged sequences as the canonical schema has fields;
  and all sequences have one length, the number of batches that the accumulator holds
  as staged: each write adds one fragment to every sequence, and a flush that finds rows
  staged empties them all. This is an invariant of the open writer: \<^verbatim>\<open>close\<close> removes the
  sequences altogether and leaves the schema set.
\<close>

theorem staging_sequences_aligned:
  assumes W: "Writer D fs options p sch = Inr w0"
    and ops: "list_all staging_op ops"
    and run: "writer_run B E ops w0 = (None, w)"
  shows "\<exists>ctx. arrowContext w = Some ctx
     \<and> (case schema ctx of
           None \<Rightarrow> stagingChunks ctx = [] \<and> list_all (\<lambda>op. op = DoFlush) ops
         | Some canonical \<Rightarrow> length (stagingChunks ctx) = length canonical)
     \<and> list_all
          (\<lambda>c. length c =
                 length (snd (accumulate (flushPolicy w0) ([], [])
                                (map (abstractOp B (writerSchema w0)) ops))))
          (stagingChunks ctx)"
proof -
  let ?acc = "accumulate (flushPolicy w0) ([], []) (map (abstractOp B (writerSchema w0)) ops)"
  from run_inv [OF Writer_staging_inv [OF W] ops run]
  have inv: "staging_inv w (fst ?acc) (snd ?acc)" by simp
  then obtain ctx where ctx: "arrowContext w = Some ctx"
    by (auto simp: staging_inv_def split: option.splits)
  have cc: "concat (fst ?acc) @ snd ?acc =
            List.map_filter id (map (abstractOp B (writerSchema w0)) ops)"
    using accumulate_concat [of "flushPolicy w0" "([], [])"
        "map (abstractOp B (writerSchema w0)) ops"] by simp
  show ?thesis
  proof (cases "schema ctx")
    case None
    then have e: "fst ?acc = []" "snd ?acc = []" "stagingChunks ctx = []"
      using inv ctx by (simp_all add: staging_inv_def)
    have "List.map_filter id (map (abstractOp B (writerSchema w0)) ops) = []"
      using cc e by simp
    then have "list_all (\<lambda>op. op = DoFlush) ops" using ops
    proof (induction ops)
      case Nil
      then show ?case by simp
    next
      case (Cons op ops)
      then show ?case by (cases op) (simp_all add: List.map_filter_simps)
    qed
    then show ?thesis using ctx None e by simp
  next
    case (Some canonical)
    then have c: "stagingChunks ctx = columnsOf (length canonical) (snd ?acc)"
      using inv ctx by (simp add: staging_inv_def)
    have "list_all (\<lambda>c. length c = length (snd ?acc)) (stagingChunks ctx)"
      unfolding c by (simp add: list_all_iff columnsOf_lengths)
    then show ?thesis using ctx Some c by (simp add: length_columnsOf)
  qed
qed

theorem staging_sequences_aligned_witness:
  "fst (writer_run demo_bridge demo_encoder
          [DoWrite (demo_batch 600 0), DoFlush, DoWrite (demo_batch 600 10),
           DoWrite (demo_batch 600 20)] demo_writer) = None
   \<and> map_option (\<lambda>c. (map length (stagingChunks c), map_option length (schema c)))
         (arrowContext
            (snd (writer_run demo_bridge demo_encoder
                    [DoWrite (demo_batch 600 0), DoFlush, DoWrite (demo_batch 600 10),
                     DoWrite (demo_batch 600 20)] demo_writer))) = Some ([2, 2], Some 2)
   \<and> snd (accumulate (flushPolicy demo_writer) ([], [])
              (map (abstractOp demo_bridge (writerSchema demo_writer))
                 [DoWrite (demo_batch 600 0), DoFlush, DoWrite (demo_batch 600 10),
                  DoWrite (demo_batch 600 20)])) =
       [(demo_arrays 10, 600, 4800), (demo_arrays 20, 600, 4800)]"
proof -
  let ?ops = "[DoWrite (demo_batch 600 0), DoFlush, DoWrite (demo_batch 600 10),
               DoWrite (demo_batch 600 20)]"
  let ?run = "writer_run demo_bridge demo_encoder ?ops demo_writer"
  define w where "w = snd ?run"
  have ok: "fst ?run = None"
    by (simp add: demo_defs step_defs)
  then have run: "?run = (None, w)"
    unfolding w_def by (metis prod.collapse)
  have ops: "list_all staging_op ?ops" by simp
  have ws: "writerSchema demo_writer = demo_schema"
    by (simp add: demo_writer_def)
  have acc: "snd (accumulate (flushPolicy demo_writer) ([], [])
              (map (abstractOp demo_bridge (writerSchema demo_writer)) ?ops)) =
       [(demo_arrays 10, 600, 4800), (demo_arrays 20, 600, 4800)]"
    by (simp add: ws staged_demo rowsOf_def bytesOf_def)
       (simp add: demo_writer_def DefaultFlushPolicy_def)
  note T = staging_sequences_aligned [OF demo_Writer ops run, unfolded acc]
  from T obtain ctx where c: "arrowContext w = Some ctx"
    and l: "list_all (\<lambda>c. length c =
              length [(demo_arrays 10, 600::int, 4800::64 word), (demo_arrays 20, 600, 4800)])
            (stagingChunks ctx)"
    by blast
  have e: "map_option (\<lambda>c. (length (stagingChunks c), map_option length (schema c)))
         (arrowContext w) = Some (2, Some 2)"
    unfolding w_def by (simp add: demo_defs step_defs)
  from c l e have "map_option (\<lambda>c. (map length (stagingChunks c), map_option length (schema c)))
         (arrowContext w) = Some ([2, 2], Some 2)"
    by (auto simp: list_all_iff length_Suc_conv numeral_2_eq_2)
  then have st: "map_option (\<lambda>c. (map length (stagingChunks c), map_option length (schema c)))
         (arrowContext (snd ?run)) = Some ([2, 2], Some 2)"
    unfolding w_def .
  show ?thesis
    by (intro conjI ok st acc)
qed

text \<open>
  The claim as stated fails after \<^verbatim>\<open>close\<close>: one batch written and the writer closed, the
  canonical schema has two fields and there is no staged sequence. A write after that
  finds no sequence to append to and throws \<^verbatim>\<open>std::out_of_range\<close>.
\<close>

theorem close_clears_sequences_counterexample:
  "fst (writer_run demo_bridge demo_encoder [DoWrite (demo_batch 600 0), DoClose] demo_writer) = None
   \<and> map_option (\<lambda>c. (length (stagingChunks c), map_option length (schema c)))
         (arrowContext
            (snd (writer_run demo_bridge demo_encoder [DoWrite (demo_batch 600 0), DoClose]
                    demo_writer))) = Some (0, Some 2)
   \<and> fst (writer_run demo_bridge demo_encoder
             [DoWrite (demo_batch 600 0), DoClose, DoWrite (demo_batch 600 10)] demo_writer) =
       Some OutOfRange"
  by (simp add: demo_defs step_defs)

end
